theory Spec2Isabelle
  imports
    Main
    "HOL-Library.Multiset"
    "HOL-Library.Char_ord"
    "HOL-Library.List_Lexorder"
begin

section \<open>Values of the script\<close>

text \<open>
  The game is two JavaScript modules, \<^verbatim>\<open>GAMESTATE\<close> (word derivation, answer
  ledger, scores, letter pool and input box) and \<^verbatim>\<open>MULTIPLAYER\<close> (the socket
  handlers). Their module-level variables become one record, every function takes the
  record and returns it updated, and every call into the \<^verbatim>\<open>UI\<close> object and every
  \<^verbatim>\<open>sock.send\<close> is appended to a log held in the record.

  A JavaScript string is modelled as a \<^typ>\<open>string\<close>, one \<^typ>\<open>char\<close> for each code
  unit. A \<^typ>\<open>char\<close> has eight bits, so the strings of the model are those whose code
  units are below 256 (ASCII and Latin-1). The default order of
  \<^verbatim>\<open>Array.prototype.sort\<close> on strings is the lexicographic order of
  \<^typ>\<open>char list\<close>.
\<close>

text \<open>
  The values the score variables can hold. \<^verbatim>\<open>pointvalues[n]\<close> is \<^verbatim>\<open>undefined\<close>
  for a length outside the table, reading a player without a score gives
  \<^verbatim>\<open>undefined\<close>, and adding \<^verbatim>\<open>undefined\<close> to a number gives \<^verbatim>\<open>NaN\<close>.
  \<^verbatim>\<open>mp_scores\<close> is an object literal \<^verbatim>\<open>{}\<close>, so reading it at the name of a member
  of \<^verbatim>\<open>Object.prototype\<close> gives that member (\<open>Inherited\<close>: a function, or the
  prototype object itself under \<^verbatim>\<open>__proto__\<close>), and \<^verbatim>\<open>+\<close> with such a value or
  with a string is string concatenation (\<open>Text\<close>: a string that is not empty; its
  characters depend on the engine and are not modelled).
\<close>

datatype jsnum = Num int | NaN | Undefined | Inherited | Text

fun js_add :: "jsnum \<Rightarrow> jsnum \<Rightarrow> jsnum" where
  "js_add (Num a) (Num b) = Num (a + b)"
| "js_add Inherited b = Text"
| "js_add Text b = Text"
| "js_add a Inherited = Text"
| "js_add a Text = Text"
| "js_add a b = NaN"

fun truthy_num :: "jsnum \<Rightarrow> bool" where
  "truthy_num (Num n) = (n \<noteq> 0)"
| "truthy_num NaN = False"
| "truthy_num Undefined = False"
| "truthy_num Inherited = True"
| "truthy_num Text = True"

text \<open>
  Who answered a word. The script writes \<^verbatim>\<open>true\<close> for the local player outside a
  multiplayer round, \<^verbatim>\<open>1\<close> for a word that was given up on and the player's name
  otherwise; a ledger cell holds one of these or \<^verbatim>\<open>false\<close> (here \<open>None\<close>).
\<close>

datatype claimant = Local | System | Named string

text \<open>
  The test \<^verbatim>\<open>if (a[2])\<close> of the script: \<^verbatim>\<open>false\<close> and the empty string are
  falsy, \<^verbatim>\<open>true\<close>, \<^verbatim>\<open>1\<close> and every other string are truthy.
\<close>

fun truthy :: "claimant option \<Rightarrow> bool" where
  "truthy None = False"
| "truthy (Some Local) = True"
| "truthy (Some System) = True"
| "truthy (Some (Named n)) = (n \<noteq> [])"

datatype error = TypeError

section \<open>Strings\<close>

text \<open>
  \<^verbatim>\<open>s.toLowerCase()\<close> works code unit by code unit on the strings of the model:
  the letters A to Z (65 to 90) and the Latin-1 capitals (192 to 222 without the
  multiplication sign 215) move up by 32, every other code unit below 256 stays.
\<close>

definition lower_char :: "char \<Rightarrow> char" where
  "lower_char c =
     (let n = (of_char c :: nat)
      in if (65 \<le> n \<and> n \<le> 90) \<or> (192 \<le> n \<and> n \<le> 222 \<and> n \<noteq> 215)
         then char_of (n + 32) else c)"

definition toLowerCase :: "string \<Rightarrow> string" where
  "toLowerCase s = map lower_char s"

text \<open>\<^verbatim>\<open>s.split("")\<close>: the array of the one-character strings of \<open>s\<close>.\<close>

definition split_chars :: "string \<Rightarrow> string list" where
  "split_chars s = map (\<lambda>c. [c]) s"

text \<open>\<^verbatim>\<open>a.join(sep)\<close>; \<^verbatim>\<open>a.join("")\<close> is \<^const>\<open>concat\<close>.\<close>

fun js_join :: "string \<Rightarrow> string list \<Rightarrow> string" where
  "js_join sep [] = []"
| "js_join sep [x] = x"
| "js_join sep (x # y # ys) = x @ sep @ js_join sep (y # ys)"

text \<open>\<^verbatim>\<open>s.split(" ")\<close>: every space separates, so the result is never empty.\<close>

fun split_space :: "string \<Rightarrow> string list" where
  "split_space [] = [[]]"
| "split_space (c # cs) =
     (if c = CHR '' '' then [] # split_space cs
      else (case split_space cs of
              [] \<Rightarrow> [[c]]
            | w # ws \<Rightarrow> (c # w) # ws))"

text \<open>
  \<^verbatim>\<open>s.trim()\<close>: the white space and line terminators below 256 are the code units
  9 to 13, 32 and 160.
\<close>

definition js_space :: "char \<Rightarrow> bool" where
  "js_space c = ((of_char c :: nat) \<in> {9, 10, 11, 12, 13, 32, 160})"

definition js_trim :: "string \<Rightarrow> string" where
  "js_trim s = rev (dropWhile js_space (rev (dropWhile js_space s)))"

text \<open>\<^verbatim>\<open>n.endsWith("_")\<close>.\<close>

definition endsWith_underscore :: "string \<Rightarrow> bool" where
  "endsWith_underscore n = (n \<noteq> [] \<and> last n = CHR ''_'')"

section \<open>Word Set Generator\<close>

text \<open>
  \<^verbatim>\<open>permute(input)\<close>. The inner function \<^verbatim>\<open>main\<close> loops over the indices of
  \<^verbatim>\<open>input\<close>; in each round it splices the element at \<open>i\<close> out of \<^verbatim>\<open>input\<close>,
  pushes it on \<^verbatim>\<open>usedChars\<close>, records a copy of \<^verbatim>\<open>usedChars\<close> when
  \<^verbatim>\<open>input\<close> has become empty, calls itself, and puts the element back. The
  function below returns what the call appends to \<^verbatim>\<open>permArr\<close>.
\<close>

function main :: "'a list \<Rightarrow> 'a list \<Rightarrow> 'a list list" where
  "main input usedChars =
     concat (map (\<lambda>i.
        (if take i input @ drop (Suc i) input = [] then [usedChars @ [input ! i]] else [])
        @ main (take i input @ drop (Suc i) input) (usedChars @ [input ! i]))
      [0..<length input])"
  by pat_completeness auto
termination
  by (relation "measure (\<lambda>(input, usedChars). length input)") auto

declare main.simps [simp del]

definition permute :: "'a list \<Rightarrow> 'a list list" where
  "permute input = main input []"

text \<open>
  \<^verbatim>\<open>uniq_fast(a)\<close>. The object \<^verbatim>\<open>seen\<close> is indexed by the item converted to a
  string, which for an array is its elements joined by commas. \<^verbatim>\<open>seen\<close> is here
  the list of the keys set to 1. Assigning 1 to the key \<^verbatim>\<open>__proto__\<close> changes
  nothing, so that key never reads as 1.
\<close>

definition item_key :: "string list \<Rightarrow> string" where
  "item_key item = js_join '','' item"

definition seen_is_1 :: "string list \<Rightarrow> string \<Rightarrow> bool" where
  "seen_is_1 seen k = (k \<in> set seen \<and> k \<noteq> ''__proto__'')"

fun uniq_loop :: "string list \<Rightarrow> string list list \<Rightarrow> string list list \<Rightarrow> string list list" where
  "uniq_loop seen out [] = out"
| "uniq_loop seen out (item # a) =
     (if \<not> seen_is_1 seen (item_key item)
      then uniq_loop (item_key item # seen) (out @ [item]) a
      else uniq_loop seen out a)"

definition uniq_fast :: "string list list \<Rightarrow> string list list" where
  "uniq_fast a = uniq_loop [] [] a"

definition getUniqPermutations :: "string list \<Rightarrow> nat \<Rightarrow> string list list" where
  "getUniqPermutations list maxLen = uniq_fast (map (\<lambda>l. take maxLen l) (permute list))"

text \<open>
  \<^verbatim>\<open>shuffle(array)\<close>. \<^verbatim>\<open>Math.floor(Math.random() * (i + 1))\<close> is some index from 0
  to \<open>i\<close>; the random source is a parameter \<open>rnd\<close>, read at \<open>i\<close> and reduced modulo
  \<open>i + 1\<close>.
\<close>

fun shuffle_loop :: "(nat \<Rightarrow> nat) \<Rightarrow> nat \<Rightarrow> 'a list \<Rightarrow> 'a list" where
  "shuffle_loop rnd 0 array = array"
| "shuffle_loop rnd (Suc k) array =
     (let i = Suc k;
          j = rnd i mod (i + 1);
          temp = array ! i
      in shuffle_loop rnd k (array[i := array ! j, j := temp]))"

definition shuffle :: "(nat \<Rightarrow> nat) \<Rightarrow> 'a list \<Rightarrow> 'a list" where
  "shuffle rnd array = shuffle_loop rnd (length array - 1) array"

text \<open>
  The local variables of \<^verbatim>\<open>createGame\<close>. The random pick of the base word is a
  parameter \<open>pick\<close>, reduced modulo the number of possibilities.
\<close>

definition lowered :: "string list \<Rightarrow> string list" where
  "lowered dictionary = map toLowerCase dictionary"

definition possibilities :: "string list \<Rightarrow> string list" where
  "possibilities dictionary = filter (\<lambda>s. length s = 6) (lowered dictionary)"

definition baseWord :: "string list \<Rightarrow> nat \<Rightarrow> string list" where
  "baseWord dictionary pick =
     split_chars (possibilities dictionary ! (pick mod length (possibilities dictionary)))"

definition gamewords :: "string list \<Rightarrow> string list \<Rightarrow> string list list" where
  "gamewords dictionary base =
     map (\<lambda>i. sort (filter (\<lambda>s. s \<in> set (lowered dictionary))
                     (map concat (getUniqPermutations base i))))
       [3..<7]"

section \<open>Arrays\<close>

text \<open>\<^verbatim>\<open>a.indexOf(x)\<close> and \<^verbatim>\<open>a.lastIndexOf(x)\<close>: \<open>-1\<close> when \<open>x\<close> is absent.\<close>

fun indexOf :: "'a list \<Rightarrow> 'a \<Rightarrow> int" where
  "indexOf [] x = - 1"
| "indexOf (y # ys) x =
     (if y = x then 0
      else (let r = indexOf ys x in if r < 0 then - 1 else r + 1))"

fun lastIndexOf :: "'a list \<Rightarrow> 'a \<Rightarrow> int" where
  "lastIndexOf [] x = - 1"
| "lastIndexOf (y # ys) x =
     (let r = lastIndexOf ys x
      in if 0 \<le> r then r + 1 else if y = x then 0 else - 1)"

text \<open>
  \<^verbatim>\<open>a.splice(start, 1)\<close>: a negative \<open>start\<close> counts from the end of the array, so
  \<^verbatim>\<open>splice(-1, 1)\<close> removes the last element.
\<close>

definition splice1 :: "int \<Rightarrow> 'a list \<Rightarrow> 'a list" where
  "splice1 start a =
     (let s = (if start < 0 then nat (max 0 (int (length a) + start)) else nat start)
      in take s a @ drop (Suc s) a)"

section \<open>The variables of the two modules\<close>

datatype ui_event =
    SetScore jsnum
  | SetPlayerScore jsnum string
  | InitChoices "string list"
  | ConstructGame "string list list"
  | RevealWord string nat nat claimant
  | UIBackspaceChar
  | AddToChoices string
  | UIEnterChar string
  | RemoveLetterAtIndex int
  | ShowMpMenu int
  | OnGiveUpVote bool "string option"
  | UIOnPlayerJoin string
  | UIOnPlayerQuit string
  | OnNameTaken
  | NoLobbyError
  | DisplayGamename string

text \<open>
  \<open>answers\<close>, \<open>avail_letters\<close>, \<open>input_box\<close>, \<open>gaveup\<close>, \<open>score\<close> and \<open>mp_scores\<close>
  are the variables of \<^verbatim>\<open>GAMESTATE\<close>; \<open>playername\<close>, \<open>players\<close>, \<open>lobby\<close> and
  \<open>sock\<close> those of \<^verbatim>\<open>MULTIPLAYER\<close> (\<open>sock\<close> is whether a socket was created, \<open>sent\<close>
  what was sent on it, \<open>steady\<close> whether its message handler is
  \<^verbatim>\<open>onServerMsg\<close>), \<open>state\<close> the variable of the closure of \<^verbatim>\<open>joinGame\<close>, and
  \<open>ui\<close> the calls made on the \<^verbatim>\<open>UI\<close> object, oldest first.

  \<open>avail_minus1\<close> is the property \<^verbatim>\<open>"-1"\<close> of the array \<open>avail_letters\<close>, which
  \<^verbatim>\<open>backspaceChar\<close> writes when \<^verbatim>\<open>lastIndexOf("")\<close> finds no empty slot and
  \<^verbatim>\<open>enterChar(-1)\<close> reads. \<open>mp_scores\<close> holds the own properties of the object
  \<^verbatim>\<open>mp_scores\<close>; what a read and a write of \<^verbatim>\<open>mp_scores[name]\<close> do is
  \<open>mp_read\<close> and \<open>mp_write\<close> below.
\<close>

record game =
  answers :: "(string \<times> claimant option) list list"
  avail_letters :: "string list"
  avail_minus1 :: "string option"
  input_box :: "string list"
  gaveup :: bool
  score :: jsnum
  mp_scores :: "string \<rightharpoonup> jsnum"
  playername :: "string option"
  players :: "string list"
  lobby :: "string option"
  sock :: bool
  steady :: bool
  sent :: "string list"
  state :: nat
  ui :: "ui_event list"

text \<open>
  The variables when the script has loaded. \<open>answers\<close>, \<open>avail_letters\<close> and
  \<open>input_box\<close> are not assigned before \<^verbatim>\<open>createGame\<close> runs; the empty lists stand
  for that, and \<open>loaded\<close> is only ever passed to \<open>createGame\<close>, \<open>hostGame\<close> or the
  handshake of \<open>joinGame\<close>.
\<close>

definition loaded :: game where
  "loaded = \<lparr> answers = [], avail_letters = [], avail_minus1 = None, input_box = [],
     gaveup = False, score = Num 0, mp_scores = Map.empty, playername = None,
     players = [], lobby = None, sock = False, steady = False, sent = [], state = 0,
     ui = [] \<rparr>"

text \<open>
  The names of the members of \<^verbatim>\<open>Object.prototype\<close> in a browser. \<^verbatim>\<open>__proto__\<close> is
  an accessor: reading it gives the prototype object, and assigning a number or a string
  to it does nothing. An assignment to any other name makes an own property.
\<close>

definition object_prototype_names :: "string list" where
  "object_prototype_names =
     [''constructor'', ''toString'', ''toLocaleString'', ''valueOf'', ''hasOwnProperty'',
      ''isPrototypeOf'', ''propertyIsEnumerable'', ''__defineGetter__'', ''__defineSetter__'',
      ''__lookupGetter__'', ''__lookupSetter__'', ''__proto__'']"

definition mp_read :: "(string \<rightharpoonup> jsnum) \<Rightarrow> string \<Rightarrow> jsnum" where
  "mp_read m name =
     (if name = ''__proto__'' then Inherited
      else (case m name of
              Some v \<Rightarrow> v
            | None \<Rightarrow> if name \<in> set object_prototype_names then Inherited else Undefined))"

definition mp_write :: "(string \<rightharpoonup> jsnum) \<Rightarrow> string \<Rightarrow> jsnum \<Rightarrow> (string \<rightharpoonup> jsnum)" where
  "mp_write m name v = (if name = ''__proto__'' then m else m(name \<mapsto> v))"

definition call_ui :: "ui_event \<Rightarrow> game \<Rightarrow> game" where
  "call_ui e g = g\<lparr>ui := ui g @ [e]\<rparr>"

definition sock_send :: "string \<Rightarrow> game \<Rightarrow> game" where
  "sock_send msg g = g\<lparr>sent := sent g @ [msg]\<rparr>"

section \<open>Answer ledger and scores\<close>

fun pointvalues :: "nat \<Rightarrow> jsnum" where
  "pointvalues n =
     (if n = 3 then Num 90 else if n = 4 then Num 160
      else if n = 5 then Num 250 else if n = 6 then Num 360 else Undefined)"

definition addScore :: "jsnum \<Rightarrow> game \<Rightarrow> game" where
  "addScore points g =
     (let g1 = g\<lparr>score := js_add (score g) points\<rparr>
      in call_ui (SetScore (score g1)) g1)"

definition addPlayerScore :: "jsnum \<Rightarrow> string \<Rightarrow> game \<Rightarrow> game" where
  "addPlayerScore points name g =
     (let g1 = (if truthy_num (mp_read (mp_scores g) name)
                then g\<lparr>mp_scores :=
                        mp_write (mp_scores g) name (js_add (mp_read (mp_scores g) name) points)\<rparr>
                else g\<lparr>mp_scores := mp_write (mp_scores g) name points\<rparr>)
      in call_ui (SetPlayerScore (mp_read (mp_scores g1) name) name) g1)"

definition shuffleLetters :: "(nat \<Rightarrow> nat) \<Rightarrow> game \<Rightarrow> game" where
  "shuffleLetters rnd g =
     (let g1 = g\<lparr>avail_letters := shuffle rnd (avail_letters g)\<rparr>
      in call_ui (InitChoices (avail_letters g1)) g1)"

text \<open>
  \<^verbatim>\<open>createGame(dictionary)\<close>. With no word of six characters in the dictionary,
  \<^verbatim>\<open>possibilities[0]\<close> is \<^verbatim>\<open>undefined\<close> and \<^verbatim>\<open>.split\<close> throws before any
  variable is assigned. \<^verbatim>\<open>score\<close> and \<^verbatim>\<open>mp_scores\<close> are not reset.
\<close>

definition createGame :: "string list \<Rightarrow> nat \<Rightarrow> (nat \<Rightarrow> nat) \<Rightarrow> game \<Rightarrow> error + game" where
  "createGame dictionary pick rnd g =
     (if possibilities dictionary = [] then Inl TypeError
      else
        (let base = baseWord dictionary pick;
             gw = gamewords dictionary base;
             g1 = call_ui (ConstructGame gw) g;
             g2 = g1\<lparr>answers := map (\<lambda>a. map (\<lambda>b. (b, None)) a) gw\<rparr>;
             g3 = g2\<lparr>avail_letters := base, avail_minus1 := None\<rparr>;
             g4 = shuffleLetters rnd g3
         in Inr (g4\<lparr>input_box := [], gaveup := False\<rparr>)))"

text \<open>
  \<^verbatim>\<open>checkWord(word)\<close>: the first entry, groups in order and entries in order, whose
  word is \<^verbatim>\<open>=== word\<close>; \<open>None\<close> is \<^verbatim>\<open>null\<close>.
\<close>

fun checkGroup :: "string \<Rightarrow> (string \<times> claimant option) list \<Rightarrow> (nat \<times> claimant option) option" where
  "checkGroup word [] = None"
| "checkGroup word (e # es) =
     (if fst e = word then Some (0, snd e)
      else (case checkGroup word es of
              None \<Rightarrow> None
            | Some (j, c) \<Rightarrow> Some (Suc j, c)))"

fun checkGroups :: "string \<Rightarrow> (string \<times> claimant option) list list
    \<Rightarrow> (nat \<times> nat \<times> claimant option) option" where
  "checkGroups word [] = None"
| "checkGroups word (grp # grps) =
     (case checkGroup word grp of
        Some (j, c) \<Rightarrow> Some (0, j, c)
      | None \<Rightarrow>
          (case checkGroups word grps of
             None \<Rightarrow> None
           | Some (i, j, c) \<Rightarrow> Some (Suc i, j, c)))"

definition checkWord :: "game \<Rightarrow> string \<Rightarrow> (nat \<times> nat \<times> claimant option) option" where
  "checkWord g word = checkGroups word (answers g)"

text \<open>\<^verbatim>\<open>answers[i][j][1] = playername\<close>.\<close>

definition set_claimant :: "nat \<Rightarrow> nat \<Rightarrow> claimant \<Rightarrow> game \<Rightarrow> game" where
  "set_claimant i j p g =
     g\<lparr>answers := (answers g)[i := (answers g ! i)[j := (fst (answers g ! i ! j), Some p)]]\<rparr>"

definition onWordGuess :: "string \<Rightarrow> claimant \<Rightarrow> game \<Rightarrow> game" where
  "onWordGuess word p g =
     (case checkWord g word of
        None \<Rightarrow> g
      | Some (i, j, c) \<Rightarrow>
          if truthy c then g
          else
            (let g1 = call_ui (RevealWord word i j p) g;
                 g2 = set_claimant i j p g1
             in if \<not> gaveup g2 then
                  (case p of
                     System \<Rightarrow> g2
                   | Local \<Rightarrow> addScore (pointvalues (length word)) g2
                   | Named name \<Rightarrow>
                       addPlayerScore (pointvalues (length word)) name
                         (addScore (pointvalues (length word)) g2))
                else g2))"

text \<open>\<^verbatim>\<open>revealAll()\<close> calls \<^verbatim>\<open>UI.revealWord\<close> on every entry and assigns nothing.\<close>

definition revealAll :: "game \<Rightarrow> game" where
  "revealAll g =
     g\<lparr>ui := ui g @
        concat (map (\<lambda>i. map (\<lambda>j. RevealWord (fst (answers g ! i ! j)) i j System)
                            [0..<length (answers g ! i)])
                  [0..<length (answers g)])\<rparr>"

definition voteGiveUp :: "bool \<Rightarrow> game \<Rightarrow> game" where
  "voteGiveUp on g =
     (if sock g then (if on then sock_send '':giveup'' g else sock_send '':ungiveup'' g)
      else g)"

definition giveUp :: "bool \<Rightarrow> game \<Rightarrow> game" where
  "giveUp on g =
     (if playername g = None \<and> on then
        (let g1 = call_ui (ShowMpMenu (- 1)) g;
             g2 = revealAll g1
         in g2\<lparr>gaveup := True\<rparr>)
      else call_ui (OnGiveUpVote on (playername g)) (voteGiveUp on g))"

section \<open>Letter pool and input box\<close>

text \<open>
  \<^verbatim>\<open>avail_letters[index]\<close>, with the empty string standing also for
  \<^verbatim>\<open>undefined\<close>: the script only tests the value for truthiness.
\<close>

definition avail_at :: "game \<Rightarrow> int \<Rightarrow> string" where
  "avail_at g index =
     (if 0 \<le> index \<and> nat index < length (avail_letters g) then avail_letters g ! nat index
      else if index = - 1 then (case avail_minus1 g of None \<Rightarrow> [] | Some c \<Rightarrow> c)
      else [])"

text \<open>\<^verbatim>\<open>avail_letters[index] = c\<close>, for an index inside the array or \<open>-1\<close>.\<close>

definition avail_set :: "int \<Rightarrow> string \<Rightarrow> game \<Rightarrow> game" where
  "avail_set index c g =
     (if 0 \<le> index then g\<lparr>avail_letters := (avail_letters g)[nat index := c]\<rparr>
      else g\<lparr>avail_minus1 := Some c\<rparr>)"

definition enterChar :: "int \<Rightarrow> game \<Rightarrow> bool \<times> game" where
  "enterChar index g =
     (let c = avail_at g index
      in if c \<noteq> [] then
           (let g1 = g\<lparr>input_box := input_box g @ [c]\<rparr>;
                g2 = call_ui (UIEnterChar c) g1;
                g3 = avail_set index [] g2;
                g4 = call_ui (RemoveLetterAtIndex index) g3
            in (True, g4))
         else (False, g))"

text \<open>\<^verbatim>\<open>backspaceChar(index)\<close>; \<open>None\<close> is a call without the argument.\<close>

definition backspaceChar :: "int option \<Rightarrow> game \<Rightarrow> bool \<times> game" where
  "backspaceChar index g =
     (if length (input_box g) > 0
         \<and> (index = None \<or> Some (int (length (input_box g))) = map_option (\<lambda>i. i + 1) index)
      then
        (let c = last (input_box g);
             g1 = g\<lparr>input_box := butlast (input_box g)\<rparr>;
             g2 = call_ui UIBackspaceChar g1;
             g3 = avail_set (lastIndexOf (avail_letters g2) []) c g2;
             g4 = call_ui (AddToChoices c) g3
         in (True, g4))
      else (False, g))"

text \<open>The loop \<^verbatim>\<open>while (m.backspaceChar());\<close> of \<^verbatim>\<open>submitWord\<close>.\<close>

function backspace_all :: "game \<Rightarrow> game" where
  "backspace_all g =
     (if fst (backspaceChar None g) then backspace_all (snd (backspaceChar None g))
      else snd (backspaceChar None g))"
  by pat_completeness auto
termination
  by (relation "measure (\<lambda>g. length (input_box g))")
     (auto simp: backspaceChar_def avail_set_def call_ui_def Let_def split: if_splits)

declare backspace_all.simps [simp del]

definition announceWordGuess :: "string \<Rightarrow> game \<Rightarrow> game" where
  "announceWordGuess word g =
     (if sock g \<and> word \<noteq> [] then sock_send ('':attempt '' @ toLowerCase word) g else g)"

definition submitWord :: "game \<Rightarrow> game" where
  "submitWord g =
     (let word = concat (input_box g);
          p = (case playername g of
                 None \<Rightarrow> Local
               | Some n \<Rightarrow> if n = [] then Local else Named n);
          g1 = onWordGuess word p g;
          g2 = announceWordGuess word g1
      in backspace_all g2)"

section \<open>Multiplayer callbacks and socket handlers\<close>

text \<open>
  \<^verbatim>\<open>mp_callbacks(...).onPlayerJoin\<close>: a join of the local player's own name copies
  the total score into that player's entry of \<^verbatim>\<open>mp_scores\<close>.
\<close>

definition callbacks_onPlayerJoin :: "string \<Rightarrow> game \<Rightarrow> game" where
  "callbacks_onPlayerJoin name g =
     (let g1 = call_ui (UIOnPlayerJoin name) g
      in if Some name = playername g1 then
           (let g2 = g1\<lparr>mp_scores := mp_write (mp_scores g1) name (score g1)\<rparr>
            in call_ui (SetPlayerScore (score g2) name) g2)
         else g1)"

text \<open>The functions \<^verbatim>\<open>onPlayerJoin\<close> and \<^verbatim>\<open>onPlayerQuit\<close> of \<^verbatim>\<open>MULTIPLAYER\<close>.\<close>

definition onPlayerJoin :: "string \<Rightarrow> game \<Rightarrow> game" where
  "onPlayerJoin name g =
     (let g1 = callbacks_onPlayerJoin name g
      in g1\<lparr>players := players g1 @ [name]\<rparr>)"

definition onPlayerQuit :: "string \<Rightarrow> game \<Rightarrow> game" where
  "onPlayerQuit name g =
     (let g1 = call_ui (UIOnPlayerQuit name) g
      in g1\<lparr>players := splice1 (indexOf (players g1) name) (players g1)\<rparr>)"

text \<open>
  \<^verbatim>\<open>mp_callbacks(...).makeGame\<close> passes the received list to \<^verbatim>\<open>createGame\<close> as its
  dictionary. The caller's \<^verbatim>\<open>onGameMake\<close> is outside the two modules.
\<close>

definition makeGame :: "string list \<Rightarrow> nat \<Rightarrow> (nat \<Rightarrow> nat) \<Rightarrow> game \<Rightarrow> error + game" where
  "makeGame gw pick rnd g =
     (case createGame gw pick rnd g of
        Inl e \<Rightarrow> Inl e
      | Inr g1 \<Rightarrow> Inr (call_ui (ShowMpMenu 2) g1))"

text \<open>The loop over the roster tokens in state 2 of the handler of \<^verbatim>\<open>joinGame\<close>.\<close>

fun roster_loop :: "string list \<Rightarrow> game \<Rightarrow> game" where
  "roster_loop [] g = g"
| "roster_loop (n # sdata) g =
     roster_loop sdata
       (if endsWith_underscore n
        then onPlayerQuit (butlast n) (onPlayerJoin (butlast n) g)
        else onPlayerJoin n g)"

definition joinGame :: "game \<Rightarrow> game" where
  "joinGame g = g\<lparr>sock := True, state := 0\<rparr>"

definition sendName :: "string \<Rightarrow> game \<Rightarrow> game" where
  "sendName name g = sock_send name (g\<lparr>playername := Some name\<rparr>)"

text \<open>
  The message handler that \<^verbatim>\<open>joinGame(gamename, cbacks)\<close> installs. The first
  \<^verbatim>\<open>if\<close> chain handles states 0 and 1; the second \<^verbatim>\<open>if\<close> then tests the
  state again, so a message that moved the state from 1 to 2 is handled as the roster
  in the same call. \<open>pick\<close> and \<open>rnd\<close> are the random draws of \<^verbatim>\<open>createGame\<close>.
\<close>

definition join_first_if :: "string \<Rightarrow> game \<Rightarrow> game" where
  "join_first_if data g =
     (if state g = 0 then
        (if data = '':noexist'' then call_ui NoLobbyError g
         else if data = '':ok'' then g\<lparr>state := 1\<rparr>
         else g)
      else if state g = 1 then
        (if data = '':badname'' then g
         else if data = '':taken'' then call_ui OnNameTaken g
         else g\<lparr>state := 2\<rparr>)
      else g)"

definition join_onmessage :: "string \<Rightarrow> string \<Rightarrow> nat \<Rightarrow> (nat \<Rightarrow> nat) \<Rightarrow> game \<Rightarrow> error + game" where
  "join_onmessage gamename data pick rnd g =
     (let g1 = join_first_if data g
      in if state g1 = 2 then
           Inr ((roster_loop (split_space data) g1)\<lparr>state := 3\<rparr>)
         else if state g1 = 3 then
           (case makeGame (split_space data) pick rnd g1 of
              Inl e \<Rightarrow> Inl e
            | Inr g2 \<Rightarrow> Inr (g2\<lparr>lobby := Some gamename, steady := True\<rparr>))
         else Inr g1)"

text \<open>
  \<^verbatim>\<open>MULTIPLAYER.hostGame\<close>, its handler of the opening of the socket, which sends
  every word of the ledger, with the marker when the word is answered, and the handler
  of the one reply it awaits.
\<close>

definition hostGame :: "string \<Rightarrow> game \<Rightarrow> game" where
  "hostGame name g = g\<lparr>sock := True, playername := Some name\<rparr>"

definition host_onopen :: "game \<Rightarrow> game" where
  "host_onopen g =
     (let words = concat (map (\<lambda>e. fst e @ (if truthy (snd e) then ''_ '' else '' ''))
                            (concat (answers g)))
      in sock_send (js_trim words) g)"

definition host_onmessage :: "string \<Rightarrow> string \<Rightarrow> game \<Rightarrow> game" where
  "host_onmessage name data g =
     (let g1 = call_ui (DisplayGamename (CHR ''c'' # data)) g;
          g2 = call_ui (ShowMpMenu 2) g1;
          g3 = onPlayerJoin name g2
      in g3\<lparr>steady := True\<rparr>)"

text \<open>
  The helper \<^verbatim>\<open>split(s, " ", limit)\<close> of \<^verbatim>\<open>MULTIPLAYER\<close>: the first \<open>limit\<close>
  pieces and then the rest of the string.
\<close>

definition split_limit :: "string \<Rightarrow> nat \<Rightarrow> string list" where
  "split_limit s limit =
     (let arr = take limit (split_space s);
          left = drop (length (js_join '' '' arr) + 1) s
      in arr @ [left])"

text \<open>
  \<^verbatim>\<open>onServerMsg\<close>, the handler of the steady state. A message that starts with
  \<^verbatim>\<open>":attempt "\<close> has at least two pieces, so \<open>sdata\<close> has the three elements read;
  a claimant \<^verbatim>\<open>"_"\<close> is replaced by \<^verbatim>\<open>1\<close>.
\<close>

definition onServerMsg :: "string \<Rightarrow> game \<Rightarrow> game" where
  "onServerMsg data g =
     (if take 9 data = '':attempt '' then
        (let sdata = split_limit data 2;
             p = (if sdata ! 2 = ''_'' then System else Named (sdata ! 2))
         in onWordGuess (sdata ! 1) p g)
      else if data = '':allgiveup'' then revealAll g
      else
        (let sdata = split_limit data 1
         in if sdata ! 0 = '':join'' then onPlayerJoin (sdata ! 1) g
            else if sdata ! 0 = '':quit'' then onPlayerQuit (sdata ! 1) g
            else if sdata ! 0 = '':giveup'' then call_ui (OnGiveUpVote True (Some (sdata ! 1))) g
            else if sdata ! 0 = '':ungiveup'' then call_ui (OnGiveUpVote False (Some (sdata ! 1))) g
            else g))"

section \<open>Notions used to state the properties\<close>

text \<open>The number of slots of the letter pool that hold a letter.\<close>

definition occupied :: "string list \<Rightarrow> nat" where
  "occupied pool = length (filter (\<lambda>c. c \<noteq> []) pool)"

text \<open>A sequence of calls of \<^verbatim>\<open>enterChar\<close> and \<^verbatim>\<open>backspaceChar\<close>.\<close>

datatype pool_call = EnterChar int | BackspaceChar "int option"

fun pool_step :: "pool_call \<Rightarrow> game \<Rightarrow> game" where
  "pool_step (EnterChar index) g = snd (enterChar index g)"
| "pool_step (BackspaceChar index) g = snd (backspaceChar index g)"

fun pool_run :: "pool_call list \<Rightarrow> game \<Rightarrow> game" where
  "pool_run [] g = g"
| "pool_run (c # cs) g = pool_run cs (pool_step c g)"

text \<open>A sequence of calls of \<^verbatim>\<open>onWordGuess\<close>.\<close>

fun guesses :: "(string \<times> claimant) list \<Rightarrow> game \<Rightarrow> game" where
  "guesses [] g = g"
| "guesses ((word, p) # ws) g = guesses ws (onWordGuess word p g)"

text \<open>The words of group \<open>k\<close> of the ledger, and the cell of a word.\<close>

definition group_words :: "game \<Rightarrow> nat \<Rightarrow> string list" where
  "group_words g k = map fst (answers g ! k)"

definition entries :: "game \<Rightarrow> (string \<times> claimant option) list" where
  "entries g = concat (answers g)"

text \<open>
  A player's score as the scoreboard shows it: what \<^verbatim>\<open>mp_scores[name]\<close> reads, and
  no points for a player for whom it reads \<^verbatim>\<open>undefined\<close>.
\<close>

definition player_score :: "game \<Rightarrow> string \<Rightarrow> jsnum" where
  "player_score g name = (case mp_read (mp_scores g) name of Undefined \<Rightarrow> Num 0 | v \<Rightarrow> v)"

text \<open>A capital letter: A to Z, or a Latin-1 capital.\<close>

definition upper_case :: "char \<Rightarrow> bool" where
  "upper_case c =
     ((of_char c :: nat) \<in> {65..90} \<union> {192..214} \<union> {216..222})"

text \<open>
  The pool and the input box of a game on a base word of \<open>n\<close> letters: \<open>n\<close> slots, the
  letters of the input box and of the occupied slots are \<open>n\<close> together, no letter is the
  empty string, and the array has no letter under the property \<^verbatim>\<open>"-1"\<close>.
\<close>

definition pool_inv :: "nat \<Rightarrow> game \<Rightarrow> bool" where
  "pool_inv n g =
     (length (avail_letters g) = n
      \<and> length (input_box g) + occupied (avail_letters g) = n
      \<and> [] \<notin> set (input_box g)
      \<and> (avail_minus1 g = None \<or> avail_minus1 g = Some []))"

text \<open>
  A ledger whose words all have a length of the point table, a total score that is a
  number, and for every name that is not the name of a member of
  \<^verbatim>\<open>Object.prototype\<close> no entry or a number in \<^verbatim>\<open>mp_scores\<close>: what
  \<^verbatim>\<open>createGame\<close> builds and the other functions keep.
\<close>

definition ledger_ok :: "game \<Rightarrow> bool" where
  "ledger_ok g = (\<forall>e\<in>set (entries g). length (fst e) \<in> {3, 4, 5, 6})"

definition scores_ok :: "game \<Rightarrow> bool" where
  "scores_ok g =
     ((\<exists>s. score g = Num s) \<and>
      (\<forall>name. name \<notin> set object_prototype_names \<longrightarrow>
         mp_scores g name = None \<or> (\<exists>m. mp_scores g name = Some (Num m))))"

text \<open>
  The roster payload as the specification words it: every token that ends in the
  marker is a join followed at once by a quit of the stripped name, every other token
  is a join.
\<close>

definition roster_spec :: "string list \<Rightarrow> game \<Rightarrow> game" where
  "roster_spec tokens g =
     fold (\<lambda>n g. if n \<noteq> [] \<and> last n = CHR ''_''
                  then onPlayerQuit (butlast n) (onPlayerJoin (butlast n) g)
                  else onPlayerJoin n g)
       tokens g"

text \<open>
  The game of the end-to-end scenario: the dictionary holds den, dare, rang and garden,
  some of them written with capitals, the base word is garden, and the shuffle leaves
  the letters in place.
\<close>

definition garden_dictionary :: "string list" where
  "garden_dictionary = [''Den'', ''DARE'', ''rang'', ''Garden'']"

definition garden_game :: game where
  "garden_game =
     (case createGame garden_dictionary 0 id loaded of Inl e \<Rightarrow> loaded | Inr g \<Rightarrow> g)"

text \<open>The scenario game after the letters g and a were entered from slots 0 and 1.\<close>

definition garden_ga :: game where
  "garden_ga = pool_run [EnterChar 0, EnterChar 1] garden_game"

text \<open>
  The joiner of the handshake scenario: the lobby answered \<^verbatim>\<open>:ok\<close>, the joiner sent
  the name carol and received the roster \<^verbatim>\<open>alice bob_\<close>.
\<close>

definition joiner_after_ok :: game where
  "joiner_after_ok =
     (case join_onmessage ''lobby'' '':ok'' 0 id (joinGame loaded) of
        Inl e \<Rightarrow> loaded
      | Inr g \<Rightarrow> sendName ''carol'' g)"

definition joiner_after_roster :: game where
  "joiner_after_roster =
     (case join_onmessage ''lobby'' ''alice bob_'' 0 id joiner_after_ok of
        Inl e \<Rightarrow> loaded
      | Inr g \<Rightarrow> g)"

text \<open>The joiner after the word list \<^verbatim>\<open>den dare_ garden\<close> has arrived as well.\<close>

definition joiner_joined :: game where
  "joiner_joined =
     (case join_onmessage ''lobby'' ''den dare_ garden'' 0 id joiner_after_roster of
        Inl e \<Rightarrow> loaded
      | Inr g \<Rightarrow> g)"

text \<open>
  The same joiner when the word list arrives as \<^verbatim>\<open>Den dare_ GARDEN\<close> instead.
\<close>

definition joiner_joined_capitals :: game where
  "joiner_joined_capitals =
     (case join_onmessage ''lobby'' ''Den dare_ GARDEN'' 0 id joiner_after_roster of
        Inl e \<Rightarrow> loaded
      | Inr g \<Rightarrow> g)"

text \<open>
  The scenario game after the local player has found den, and then the same player
  hosting under the name ann once the server has answered with the lobby number 7.
\<close>

definition garden_den_found :: game where
  "garden_den_found = onWordGuess ''den'' Local garden_game"

definition garden_hosted :: game where
  "garden_hosted = host_onmessage ''ann'' ''7'' (hostGame ''ann'' garden_den_found)"

section \<open>Properties of the Word Set Generator\<close>

declare lowered_def [simp]

subsection \<open>\<^verbatim>\<open>permute\<close> enumerates the permutations, \<^verbatim>\<open>uniq_fast\<close> removes duplicates\<close>


lemma mset_remove_nth:
  "i < length xs \<Longrightarrow> add_mset (xs ! i) (mset (take i xs @ drop (Suc i) xs)) = mset xs"
proof -
  assume "i < length xs"
  then have "xs = take i xs @ xs ! i # drop (Suc i) xs"
    by (rule id_take_nth_drop)
  then have "mset xs = mset (take i xs @ xs ! i # drop (Suc i) xs)"
    by simp
  then show ?thesis by simp
qed

lemma set_main:
  "set (main input used) =
     (\<Union>i\<in>{..<length input}.
        set ((if take i input @ drop (Suc i) input = [] then [used @ [input ! i]] else [])
             @ main (take i input @ drop (Suc i) input) (used @ [input ! i])))"
  by (subst main.simps[of input used]) (simp add: atLeast0LessThan)

lemma main_sound:
  "p \<in> set (main input used) \<Longrightarrow> \<exists>q. p = used @ q \<and> mset q = mset input"
proof (induction input used arbitrary: p rule: main.induct)
  case (1 input used)
  let ?rest = "\<lambda>i. take i input @ drop (Suc i) input"
  from "1.prems" obtain i where i: "i < length input"
    and p: "p \<in> set ((if ?rest i = [] then [used @ [input ! i]] else [])
                 @ main (?rest i) (used @ [input ! i]))"
    unfolding set_main by blast
  have m: "add_mset (input ! i) (mset (?rest i)) = mset input"
    using i by (rule mset_remove_nth)
  from p consider (leaf) "?rest i = []" "p = used @ [input ! i]"
    | (rec) "p \<in> set (main (?rest i) (used @ [input ! i]))"
    by (auto split: if_splits)
  then show ?case
  proof cases
    case leaf
    with m have "mset [input ! i] = mset input" by simp
    with leaf show ?thesis by blast
  next
    case rec
    from i have "i \<in> set [0..<length input]" by simp
    from "1.IH"[OF this rec] obtain q where
      q: "p = (used @ [input ! i]) @ q" "mset q = mset (?rest i)" by blast
    then have "p = used @ (input ! i # q)" "mset (input ! i # q) = mset input"
      using m by simp_all
    then show ?thesis by blast
  qed
qed

lemma main_Nil: "main [] used = []"
  by (subst main.simps) simp

lemma main_complete:
  "input \<noteq> [] \<Longrightarrow> mset q = mset input \<Longrightarrow> used @ q \<in> set (main input used)"
proof (induction input used arbitrary: q rule: main.induct)
  case (1 input used)
  let ?rest = "\<lambda>i. take i input @ drop (Suc i) input"
  from "1.prems" obtain a q' where q: "q = a # q'"
    by (cases q) auto
  with "1.prems" have "a \<in> set input"
    by (metis list.set_intros(1) mset_eq_setD)
  then obtain i where i: "i < length input" "input ! i = a"
    by (auto simp: in_set_conv_nth)
  have m: "add_mset a (mset (?rest i)) = mset input"
    using mset_remove_nth[OF i(1)] i(2) by simp
  from "1.prems" q have "add_mset a (mset q') = mset input" by simp
  with m have "add_mset a (mset q') = add_mset a (mset (?rest i))" by (simp only:)
  then have q': "mset q' = mset (?rest i)" by (simp only: add_mset_add_mset_same_iff)
  have "used @ q \<in> set ((if ?rest i = [] then [used @ [input ! i]] else [])
                 @ main (?rest i) (used @ [input ! i]))"
  proof (cases "?rest i = []")
    case True
    with q' have "q' = []" by simp
    with True q i show ?thesis by simp
  next
    case False
    from i have "i \<in> set [0..<length input]" by simp
    from "1.IH"[OF this False q'] show ?thesis using q i by simp
  qed
  with i(1) show ?case
    unfolding set_main by blast
qed

lemma set_permute:
  assumes "input \<noteq> []"
  shows "set (permute input) = {p. mset p = mset input}"
proof (intro set_eqI iffI)
  fix p assume "p \<in> set (permute input)"
  then show "p \<in> {p. mset p = mset input}"
    unfolding permute_def using main_sound[of p input "[]"] by simp
next
  fix p assume "p \<in> {p. mset p = mset input}"
  then have "mset p = mset input" by simp
  from main_complete[OF assms this, of "[]"] show "p \<in> set (permute input)"
    unfolding permute_def by simp
qed

lemma permute_sound: "p \<in> set (permute input) \<Longrightarrow> mset p = mset input"
  unfolding permute_def using main_sound[of p input "[]"] by simp

lemma mset_split_chars:
  assumes "mset p = mset (split_chars w)"
  shows "\<exists>w'. p = split_chars w' \<and> mset w' = mset w"
proof -
  have "set p = set (split_chars w)" using assms by (rule mset_eq_setD)
  then have "\<forall>x\<in>set p. \<exists>c. x = [c]" by (auto simp: split_chars_def)
  then have p: "p = split_chars (concat p)"
    unfolding split_chars_def by (induction p) auto
  have "mset (concat p) = mset (concat (split_chars w))"
    using assms by (simp add: mset_concat flip: sum_mset_sum_list)
  then have "mset (concat p) = mset w" by (simp add: split_chars_def)
  with p show ?thesis by blast
qed

lemma take_split_chars: "take n (split_chars w) = split_chars (take n w)"
  by (simp add: split_chars_def take_map)

lemma concat_split_chars: "concat (split_chars w) = w"
  by (simp add: split_chars_def)

lemma uniq_loop_subset: "set (uniq_loop seen out a) \<subseteq> set out \<union> set a"
proof (induction a arbitrary: seen out)
  case Nil
  then show ?case by simp
next
  case (Cons item a)
  have "set (uniq_loop (item_key item # seen) (out @ [item]) a) \<subseteq> set (out @ [item]) \<union> set a"
    by (rule Cons.IH)
  moreover have "set (uniq_loop seen out a) \<subseteq> set out \<union> set a"
    by (rule Cons.IH)
  ultimately show ?case by auto
qed

lemma uniq_loop_distinct:
  "distinct (map item_key out) \<Longrightarrow> item_key ` set out \<subseteq> set seen
   \<Longrightarrow> \<forall>x\<in>set a. item_key x \<noteq> ''__proto__''
   \<Longrightarrow> distinct (map item_key (uniq_loop seen out a))"
proof (induction a arbitrary: seen out)
  case Nil
  then show ?case by simp
next
  case (Cons item a)
  show ?case
  proof (cases "seen_is_1 seen (item_key item)")
    case True
    then show ?thesis using Cons by simp
  next
    case False
    with Cons.prems have "item_key item \<notin> set seen" by (simp add: seen_is_1_def)
    with Cons.prems have "distinct (map item_key (out @ [item]))"
      "item_key ` set (out @ [item]) \<subseteq> set (item_key item # seen)"
      by auto
    from Cons.IH[OF this] Cons.prems False show ?thesis by simp
  qed
qed

lemma item_key_split_chars:
  "2 \<le> length u \<Longrightarrow> item_key (split_chars u) \<noteq> ''__proto__''"
proof -
  assume "2 \<le> length u"
  then obtain a b r where "u = a # b # r"
    by (cases u; cases "tl u") auto
  then have "item_key (split_chars u) ! 1 = CHR '',''"
    by (simp add: item_key_def split_chars_def)
  moreover have "''__proto__'' ! 1 = CHR ''_''" by simp
  ultimately have "item_key (split_chars u) ! 1 \<noteq> ''__proto__'' ! 1" by simp
  then show ?thesis by metis
qed

subsection \<open>The groups of \<^verbatim>\<open>createGame\<close>\<close>


lemma mset_take_subseteq: "mset (take n xs) \<subseteq># mset xs"
proof -
  have "mset xs = mset (take n xs) + mset (drop n xs)"
    by (simp flip: mset_append)
  then show ?thesis by simp
qed

lemma truncated_items:
  assumes "item \<in> set (map (\<lambda>l. take L l) (permute (split_chars bw)))"
  shows "\<exists>u. item = split_chars u \<and> length u = min L (length bw) \<and> mset u \<subseteq># mset bw"
proof -
  from assms obtain p where p: "p \<in> set (permute (split_chars bw))" "item = take L p"
    by auto
  from permute_sound[OF p(1)] obtain w' where
    w': "p = split_chars w'" "mset w' = mset bw"
    using mset_split_chars by blast
  from w'(2) have "length w' = length bw" by (rule mset_eq_length)
  moreover have "mset (take L w') \<subseteq># mset bw"
    using mset_take_subseteq[of L w'] w'(2) by simp
  ultimately show ?thesis
    using p(2) w'(1) by (auto simp: take_split_chars min.commute)
qed

lemma uniq_fast_subset: "set (uniq_fast a) \<subseteq> set a"
  unfolding uniq_fast_def using uniq_loop_subset[of "[]" "[]" a] by simp

lemma getUniqPermutations_items:
  assumes "item \<in> set (getUniqPermutations (split_chars bw) L)"
  shows "\<exists>u. item = split_chars u \<and> length u = min L (length bw) \<and> mset u \<subseteq># mset bw"
  using assms uniq_fast_subset truncated_items unfolding getUniqPermutations_def by blast

lemma getUniqPermutations_distinct:
  assumes "2 \<le> L" "2 \<le> length bw"
  shows "distinct (map concat (getUniqPermutations (split_chars bw) L))"
proof -
  let ?a = "map (\<lambda>l. take L l) (permute (split_chars bw))"
  have "\<forall>x\<in>set ?a. item_key x \<noteq> ''__proto__''"
  proof
    fix x assume "x \<in> set ?a"
    from truncated_items[OF this] obtain u where
      "x = split_chars u" "length u = min L (length bw)" by blast
    with assms show "item_key x \<noteq> ''__proto__''"
      by (simp add: item_key_split_chars)
  qed
  then have "distinct (map item_key (uniq_fast ?a))"
    unfolding uniq_fast_def by (intro uniq_loop_distinct) simp_all
  then have d: "distinct (uniq_fast ?a)"
    by (simp add: distinct_map)
  have "inj_on concat (set (uniq_fast ?a))"
  proof (rule inj_onI)
    fix x y assume "x \<in> set (uniq_fast ?a)" "y \<in> set (uniq_fast ?a)" "concat x = concat y"
    moreover from this obtain u v where "x = split_chars u" "y = split_chars v"
      using uniq_fast_subset truncated_items by blast
    ultimately show "x = y" by (simp add: concat_split_chars)
  qed
  with d show ?thesis
    unfolding getUniqPermutations_def by (simp add: distinct_map)
qed

lemma upt_3_7: "[3..<7] = [3, 4, 5, 6::nat]"
  by (simp add: upt_rec)

lemma length_gamewords: "length (gamewords dictionary base) = 4"
  by (simp add: gamewords_def)

lemma gamewords_nth:
  assumes "L \<in> {3, 4, 5, 6}"
  shows "gamewords dictionary base ! (L - 3) =
         sort (filter (\<lambda>s. s \<in> set (map toLowerCase dictionary))
              (map concat (getUniqPermutations base L)))"
  using assms unfolding gamewords_def upt_3_7 by auto

lemma gamewords_group:
  assumes "L \<in> {3, 4, 5, 6}" "length bw = 6"
  shows "distinct (gamewords dictionary (split_chars bw) ! (L - 3))"
    and "sorted (gamewords dictionary (split_chars bw) ! (L - 3))"
    and "\<forall>w\<in>set (gamewords dictionary (split_chars bw) ! (L - 3)).
           w \<in> set (map toLowerCase dictionary) \<and> length w = L \<and> mset w \<subseteq># mset bw"
proof -
  from assms have L: "2 \<le> L" "2 \<le> length bw" "min L (length bw) = L" by auto
  show "distinct (gamewords dictionary (split_chars bw) ! (L - 3))"
    unfolding gamewords_nth[OF assms(1)]
    using getUniqPermutations_distinct[OF L(1,2)] by (simp add: distinct_filter)
  show "sorted (gamewords dictionary (split_chars bw) ! (L - 3))"
    unfolding gamewords_nth[OF assms(1)] by simp
  show "\<forall>w\<in>set (gamewords dictionary (split_chars bw) ! (L - 3)).
           w \<in> set (map toLowerCase dictionary) \<and> length w = L \<and> mset w \<subseteq># mset bw"
  proof
    fix w assume "w \<in> set (gamewords dictionary (split_chars bw) ! (L - 3))"
    then have w: "w \<in> set (map toLowerCase dictionary)"
      and "\<exists>item\<in>set (getUniqPermutations (split_chars bw) L). w = concat item"
      unfolding gamewords_nth[OF assms(1)] by auto
    then obtain u where "w = concat (split_chars u)" "length u = min L (length bw)"
      "mset u \<subseteq># mset bw"
      using getUniqPermutations_items by blast
    with w L(3) show "w \<in> set (map toLowerCase dictionary) \<and> length w = L \<and> mset w \<subseteq># mset bw"
      by (simp add: concat_split_chars)
  qed
qed

lemma baseWord_picked:
  assumes "possibilities dictionary \<noteq> []"
  shows "\<exists>bw. baseWord dictionary pick = split_chars bw \<and> length bw = 6
              \<and> bw \<in> set (map toLowerCase dictionary)"
proof -
  let ?bw = "possibilities dictionary ! (pick mod length (possibilities dictionary))"
  from assms have "?bw \<in> set (possibilities dictionary)" by simp
  then have "length ?bw = 6 \<and> ?bw \<in> set (map toLowerCase dictionary)"
    by (simp add: possibilities_def)
  then show ?thesis unfolding baseWord_def by blast
qed

lemma createGame_no_base_word:
  "possibilities dictionary = [] \<Longrightarrow> createGame dictionary pick rnd g = Inl TypeError"
  by (simp add: createGame_def)

lemma createGame_answers:
  assumes "possibilities dictionary \<noteq> []"
  shows "\<exists>g'. createGame dictionary pick rnd g = Inr g' \<and>
           answers g' = map (\<lambda>a. map (\<lambda>b. (b, None)) a)
                            (gamewords dictionary (baseWord dictionary pick))"
  using assms by (simp add: createGame_def Let_def shuffleLetters_def call_ui_def)

lemma lower_char_not_upper: "\<not> upper_case (lower_char c)"
proof -
  let ?n = "of_char c :: nat"
  have lt: "?n < 256" by simp
  show ?thesis
  proof (cases "(65 \<le> ?n \<and> ?n \<le> 90) \<or> (192 \<le> ?n \<and> ?n \<le> 222 \<and> ?n \<noteq> 215)")
    case True
    then have "?n + 32 < 256" by auto
    then have "(of_char (char_of (?n + 32)) :: nat) = ?n + 32" by simp
    with True show ?thesis
      by (auto simp: upper_case_def lower_char_def Let_def)
  next
    case False
    then show ?thesis
      by (auto simp: upper_case_def lower_char_def Let_def)
  qed
qed

lemma toLowerCase_no_upper: "c \<in> set (toLowerCase s) \<Longrightarrow> \<not> upper_case c"
  by (auto simp: toLowerCase_def lower_char_not_upper)

lemma lowered_word_no_upper:
  "w \<in> set (map toLowerCase dictionary) \<Longrightarrow> \<forall>c\<in>set w. \<not> upper_case c"
  using toLowerCase_no_upper by auto

lemma createGame_groups_sound:
  assumes "possibilities dictionary \<noteq> []"
  shows "\<exists>g'. createGame dictionary pick rnd g = Inr g' \<and>
           length (answers g') = 4 \<and>
           length (concat (baseWord dictionary pick)) = 6 \<and>
           concat (baseWord dictionary pick) \<in> set (map toLowerCase dictionary) \<and>
           (\<forall>L\<in>{3, 4, 5, 6}.
              distinct (group_words g' (L - 3)) \<and>
              sorted (group_words g' (L - 3)) \<and>
              (\<forall>w\<in>set (group_words g' (L - 3)).
                 w \<in> set (map toLowerCase dictionary) \<and> length w = L \<and>
                 mset w \<subseteq># mset (concat (baseWord dictionary pick))))"
proof -
  from baseWord_picked[OF assms] obtain bw where
    bw: "baseWord dictionary pick = split_chars bw" "length bw = 6"
        "bw \<in> set (map toLowerCase dictionary)"
    by blast
  from createGame_answers[OF assms, of pick rnd g] obtain g' where
    g': "createGame dictionary pick rnd g = Inr g'"
        "answers g' = map (\<lambda>a. map (\<lambda>b. (b, None)) a) (gamewords dictionary (split_chars bw))"
    unfolding bw(1) by blast
  have grp: "group_words g' (L - 3) = gamewords dictionary (split_chars bw) ! (L - 3)"
    if "L \<in> {3, 4, 5, 6}" for L
  proof -
    from that have "L - 3 < length (gamewords dictionary (split_chars bw))"
      by (auto simp: length_gamewords)
    then show ?thesis
      unfolding group_words_def g'(2) by (simp add: comp_def)
  qed
  have "\<forall>L\<in>{3, 4, 5, 6}.
              distinct (group_words g' (L - 3)) \<and>
              sorted (group_words g' (L - 3)) \<and>
              (\<forall>w\<in>set (group_words g' (L - 3)).
                 w \<in> set (map toLowerCase dictionary) \<and> length w = L \<and> mset w \<subseteq># mset bw)"
  proof
    fix L :: nat assume L: "L \<in> {3, 4, 5, 6}"
    show "distinct (group_words g' (L - 3)) \<and>
              sorted (group_words g' (L - 3)) \<and>
              (\<forall>w\<in>set (group_words g' (L - 3)).
                 w \<in> set (map toLowerCase dictionary) \<and> length w = L \<and> mset w \<subseteq># mset bw)"
      unfolding grp[OF L] using gamewords_group[OF L bw(2), of dictionary] by blast
  qed
  moreover have "length (answers g') = 4"
    unfolding g'(2) by (simp add: length_gamewords)
  ultimately show ?thesis
    using g'(1) bw by (auto simp: concat_split_chars)
qed

text \<open>
  C1. Whenever the dictionary holds a word of six characters \<^verbatim>\<open>createGame\<close> returns,
  the ledger has four groups, and for each length \<open>L\<close> from 3 to 6 the group of index
  \<open>L - 3\<close> has no duplicate, is sorted ascending in the lexicographic order, and each of
  its words is the lower-case form \<^verbatim>\<open>toLowerCase\<close> of a word of the dictionary, holds
  no capital letter, has exactly \<open>L\<close> characters and is formable from a sub-multiset of
  the letters of the base word, itself the lower-case form, of six characters, of a word
  of the dictionary.
\<close>

theorem createGame_word_groups:
  assumes "possibilities dictionary \<noteq> []"
  shows "\<exists>g'. createGame dictionary pick rnd g = Inr g' \<and>
           length (answers g') = 4 \<and>
           length (concat (baseWord dictionary pick)) = 6 \<and>
           concat (baseWord dictionary pick) \<in> set (map toLowerCase dictionary) \<and>
           (\<forall>L\<in>{3, 4, 5, 6}.
              distinct (group_words g' (L - 3)) \<and>
              sorted (group_words g' (L - 3)) \<and>
              (\<forall>w\<in>set (group_words g' (L - 3)).
                 w \<in> set (map toLowerCase dictionary) \<and>
                 (\<forall>c\<in>set w. \<not> upper_case c) \<and>
                 length w = L \<and>
                 mset w \<subseteq># mset (concat (baseWord dictionary pick))))"
proof -
  from createGame_groups_sound[OF assms, of pick rnd g] obtain g' where
    g': "createGame dictionary pick rnd g = Inr g'"
        "length (answers g') = 4"
        "length (concat (baseWord dictionary pick)) = 6"
        "concat (baseWord dictionary pick) \<in> set (map toLowerCase dictionary)"
        "\<forall>L\<in>{3, 4, 5, 6}.
              distinct (group_words g' (L - 3)) \<and>
              sorted (group_words g' (L - 3)) \<and>
              (\<forall>w\<in>set (group_words g' (L - 3)).
                 w \<in> set (map toLowerCase dictionary) \<and> length w = L \<and>
                 mset w \<subseteq># mset (concat (baseWord dictionary pick)))"
    by blast
  from g'(5) have "\<forall>L\<in>{3, 4, 5, 6}.
              distinct (group_words g' (L - 3)) \<and>
              sorted (group_words g' (L - 3)) \<and>
              (\<forall>w\<in>set (group_words g' (L - 3)).
                 w \<in> set (map toLowerCase dictionary) \<and>
                 (\<forall>c\<in>set w. \<not> upper_case c) \<and>
                 length w = L \<and>
                 mset w \<subseteq># mset (concat (baseWord dictionary pick)))"
    using lowered_word_no_upper[of _ dictionary] by blast
  with g'(1,2,3,4) show ?thesis by blast
qed

subsection \<open>Every formable dictionary word is in its group\<close>


lemma item_key_inj:
  "item_key (split_chars u) = item_key (split_chars v) \<Longrightarrow> u = v"
proof (induction u arbitrary: v)
  case Nil
  then show ?case
    by (cases v; cases "tl v") (auto simp: item_key_def split_chars_def)
next
  case (Cons a u)
  show ?case
  proof (cases v)
    case Nil
    with Cons.prems show ?thesis
      by (cases u) (auto simp: item_key_def split_chars_def)
  next
    case v: (Cons b v')
    show ?thesis
    proof (cases u)
      case Nil
      with Cons.prems v show ?thesis
        by (cases v') (auto simp: item_key_def split_chars_def)
    next
      case u: (Cons a' u')
      show ?thesis
      proof (cases v')
        case Nil
        with Cons.prems v u show ?thesis
          by (auto simp: item_key_def split_chars_def)
      next
        case v': (Cons b' v'')
        from Cons.prems have "a = b"
          and "item_key (split_chars u) = item_key (split_chars v')"
          unfolding v u v' by (auto simp: item_key_def split_chars_def)
        with Cons.IH show ?thesis unfolding v by simp
      qed
    qed
  qed
qed

lemma uniq_loop_complete:
  "inj_on item_key (set out \<union> set a) \<Longrightarrow> set seen = item_key ` set out
   \<Longrightarrow> set out \<union> set a \<subseteq> set (uniq_loop seen out a)"
proof (induction a arbitrary: seen out)
  case Nil
  then show ?case by simp
next
  case (Cons item a)
  show ?case
  proof (cases "seen_is_1 seen (item_key item)")
    case True
    then have "item_key item \<in> item_key ` set out"
      using Cons.prems(2) by (simp add: seen_is_1_def)
    then obtain x where x: "x \<in> set out" "item_key x = item_key item" by auto
    have "x = item"
      by (rule inj_onD[OF Cons.prems(1) x(2)]) (use x(1) in simp_all)
    with x have item: "item \<in> set out" by simp
    from Cons.prems(1) have "inj_on item_key (set out \<union> set a)"
      by (rule inj_on_subset) auto
    from Cons.IH[OF this Cons.prems(2)] item True show ?thesis by auto
  next
    case False
    from Cons.prems(1) have "inj_on item_key (set (out @ [item]) \<union> set a)"
      by (rule inj_on_subset) auto
    moreover from Cons.prems(2) have "set (item_key item # seen) = item_key ` set (out @ [item])"
      by auto
    ultimately have "set (out @ [item]) \<union> set a \<subseteq> set (uniq_loop (item_key item # seen) (out @ [item]) a)"
      by (rule Cons.IH)
    with False show ?thesis by auto
  qed
qed

lemma set_getUniqPermutations:
  "set (getUniqPermutations (split_chars bw) L) =
     set (map (\<lambda>l. take L l) (permute (split_chars bw)))"
proof -
  let ?a = "map (\<lambda>l. take L l) (permute (split_chars bw))"
  have "inj_on item_key (set ?a)"
  proof (rule inj_onI)
    fix x y assume "x \<in> set ?a" "y \<in> set ?a" "item_key x = item_key y"
    moreover from this obtain u v where "x = split_chars u" "y = split_chars v"
      using truncated_items by blast
    ultimately show "x = y" using item_key_inj by blast
  qed
  then have "set ?a \<subseteq> set (uniq_fast ?a)"
    unfolding uniq_fast_def using uniq_loop_complete[of "[]" ?a "[]"] by simp
  with uniq_fast_subset[of ?a] show ?thesis
    unfolding getUniqPermutations_def by blast
qed

lemma formable_is_truncation:
  assumes "mset w \<subseteq># mset bw" "bw \<noteq> []"
  shows "split_chars w \<in> set (map (\<lambda>l. take (length w) l) (permute (split_chars bw)))"
proof -
  obtain r where r: "mset r = mset bw - mset w"
    using ex_mset by blast
  with assms(1) have m: "mset (w @ r) = mset bw" by simp
  then have "mset (split_chars (w @ r)) = mset (split_chars bw)"
    unfolding split_chars_def by (simp only: mset_map)
  moreover from assms(2) have "split_chars bw \<noteq> []" by (simp add: split_chars_def)
  ultimately have "split_chars (w @ r) \<in> set (permute (split_chars bw))"
    by (simp add: set_permute)
  moreover have "take (length w) (split_chars (w @ r)) = split_chars w"
    by (simp add: take_split_chars)
  ultimately show ?thesis by force
qed

lemma set_gamewords_group:
  assumes "L \<in> {3, 4, 5, 6}" "length bw = 6"
  shows "set (gamewords dictionary (split_chars bw) ! (L - 3)) =
           {w \<in> set (map toLowerCase dictionary). length w = L \<and> mset w \<subseteq># mset bw}"
proof (intro set_eqI iffI)
  fix w assume "w \<in> set (gamewords dictionary (split_chars bw) ! (L - 3))"
  with gamewords_group(3)[OF assms, of dictionary]
  show "w \<in> {w \<in> set (map toLowerCase dictionary). length w = L \<and> mset w \<subseteq># mset bw}"
    by blast
next
  fix w assume "w \<in> {w \<in> set (map toLowerCase dictionary). length w = L \<and> mset w \<subseteq># mset bw}"
  then have w: "w \<in> set (map toLowerCase dictionary)" "length w = L" "mset w \<subseteq># mset bw"
    by simp_all
  from assms(2) have "bw \<noteq> []" by auto
  from formable_is_truncation[OF w(3) this] w(2)
  have "split_chars w \<in> set (getUniqPermutations (split_chars bw) L)"
    unfolding set_getUniqPermutations by simp
  then have "concat (split_chars w) \<in> concat ` set (getUniqPermutations (split_chars bw) L)"
    by (rule imageI)
  with w(1) show "w \<in> set (gamewords dictionary (split_chars bw) ! (L - 3))"
    unfolding gamewords_nth[OF assms(1)] by (simp add: concat_split_chars)
qed

section \<open>The scenario games, evaluated\<close>

lemma gamewords_eqI:
  assumes "length bw = 6" "length xs = 4"
    and "\<And>L. L \<in> {3, 4, 5, 6} \<Longrightarrow>
           sorted (xs ! (L - 3)) \<and> distinct (xs ! (L - 3)) \<and>
           set (xs ! (L - 3)) = {w \<in> set (map toLowerCase d). length w = L \<and> mset w \<subseteq># mset bw}"
  shows "gamewords d (split_chars bw) = xs"
proof (rule nth_equalityI)
  show "length (gamewords d (split_chars bw)) = length xs"
    using assms(2) by (simp add: length_gamewords)
next
  fix k assume "k < length (gamewords d (split_chars bw))"
  then have "k < 4" by (simp add: length_gamewords)
  then have L: "k + 3 \<in> {3, 4, 5, 6}" by auto
  from gamewords_group(1,2)[OF L assms(1), of d] set_gamewords_group[OF L assms(1), of d] assms(3)[OF L]
  show "gamewords d (split_chars bw) ! k = xs ! k"
    by (auto intro: sorted_distinct_set_unique)
qed

lemma lowered_garden:
  "map toLowerCase garden_dictionary = [''den'', ''dare'', ''rang'', ''garden'']"
  by code_simp

lemma possibilities_garden: "possibilities garden_dictionary = [''garden'']"
  by (simp add: possibilities_def lowered_garden)

lemma baseWord_garden: "baseWord garden_dictionary 0 = split_chars ''garden''"
  by (simp add: baseWord_def possibilities_garden)

lemma gamewords_garden:
  "gamewords garden_dictionary (split_chars ''garden'') =
     [[''den''], [''dare'', ''rang''], [], [''garden'']]"
proof (rule gamewords_eqI)
  fix L :: nat assume "L \<in> {3, 4, 5, 6}"
  then consider "L = 3" | "L = 4" | "L = 5" | "L = 6" by auto
  then show "sorted ([[''den''], [''dare'', ''rang''], [], [''garden'']] ! (L - 3)) \<and>
           distinct ([[''den''], [''dare'', ''rang''], [], [''garden'']] ! (L - 3)) \<and>
           set ([[''den''], [''dare'', ''rang''], [], [''garden'']] ! (L - 3)) =
             {w \<in> set (map toLowerCase garden_dictionary). length w = L \<and> mset w \<subseteq># mset ''garden''}"
    unfolding lowered_garden
    by cases (auto simp: insert_subset_eq_iff)
qed simp_all

lemma shuffle_id_6:
  "shuffle id [a, b, c, d, e, f] = [a, b, c, d, e, f]"
  by (simp add: shuffle_def numeral_eq_Suc)

lemma createGame_garden: "createGame garden_dictionary 0 id loaded = Inr garden_game"
  by (simp add: garden_game_def createGame_def possibilities_garden Let_def)

lemma garden_letters: "split_chars ''garden'' = [''g'', ''a'', ''r'', ''d'', ''e'', ''n'']"
  by (simp add: split_chars_def)

lemma garden_game_eq:
  "garden_game = loaded\<lparr>
     answers := [[(''den'', None)], [(''dare'', None), (''rang'', None)], [], [(''garden'', None)]],
     avail_letters := [''g'', ''a'', ''r'', ''d'', ''e'', ''n''],
     ui := [ConstructGame [[''den''], [''dare'', ''rang''], [], [''garden'']],
            InitChoices [''g'', ''a'', ''r'', ''d'', ''e'', ''n'']]\<rparr>"
  unfolding garden_game_def createGame_def baseWord_garden
  by (simp add: possibilities_garden shuffleLetters_def call_ui_def loaded_def Let_def
        shuffle_id_6 garden_letters gamewords_garden[unfolded garden_letters])

text \<open>The groups of the scenario game, as C1 gives them.\<close>

theorem createGame_word_groups_witness:
  "possibilities garden_dictionary \<noteq> [] \<and>
   createGame garden_dictionary 0 id loaded = Inr garden_game \<and>
   length (answers garden_game) = 4 \<and>
   group_words garden_game 1 = [''dare'', ''rang''] \<and>
   distinct (group_words garden_game 1) \<and>
   sorted (group_words garden_game 1) \<and>
   ''DARE'' \<in> set garden_dictionary \<and> ''dare'' \<notin> set garden_dictionary \<and>
   ''dare'' \<in> set (map toLowerCase garden_dictionary) \<and>
   \<not> upper_case CHR ''d'' \<and> \<not> upper_case CHR ''a'' \<and>
   \<not> upper_case CHR ''r'' \<and> \<not> upper_case CHR ''e'' \<and>
   length ''dare'' = 4 \<and>
   mset ''dare'' \<subseteq># mset ''garden''"
proof -
  have h: "possibilities garden_dictionary \<noteq> []"
    by (simp add: possibilities_garden)
  from createGame_word_groups[OF h, of 0 id loaded] obtain g' where
    g': "createGame garden_dictionary 0 id loaded = Inr g'"
        "length (answers g') = 4"
        "\<forall>L\<in>{3, 4, 5, 6}.
           distinct (group_words g' (L - 3)) \<and>
           sorted (group_words g' (L - 3)) \<and>
           (\<forall>w\<in>set (group_words g' (L - 3)).
              w \<in> set (map toLowerCase garden_dictionary) \<and>
              (\<forall>c\<in>set w. \<not> upper_case c) \<and>
              length w = L \<and>
              mset w \<subseteq># mset (concat (baseWord garden_dictionary 0)))"
    by blast
  from g'(1) have eq: "g' = garden_game" by (simp add: createGame_garden)
  have base: "concat (baseWord garden_dictionary 0) = ''garden''"
    by (simp add: baseWord_garden concat_split_chars)
  have grp: "group_words garden_game 1 = [''dare'', ''rang'']"
    by (simp add: group_words_def garden_game_eq loaded_def)
  have "(4::nat) \<in> {3, 4, 5, 6}" by simp
  with g'(3) have four: "distinct (group_words g' (4 - 3)) \<and>
           sorted (group_words g' (4 - 3)) \<and>
           (\<forall>w\<in>set (group_words g' (4 - 3)).
              w \<in> set (map toLowerCase garden_dictionary) \<and>
              (\<forall>c\<in>set w. \<not> upper_case c) \<and>
              length w = 4 \<and>
              mset w \<subseteq># mset (concat (baseWord garden_dictionary 0)))"
    by (rule bspec)
  have one: "(4::nat) - 3 = 1" by simp
  from four have d: "distinct (group_words garden_game 1)" "sorted (group_words garden_game 1)"
    and w: "\<forall>w\<in>set (group_words garden_game 1).
              w \<in> set (map toLowerCase garden_dictionary) \<and>
              (\<forall>c\<in>set w. \<not> upper_case c) \<and>
              length w = 4 \<and>
              mset w \<subseteq># mset ''garden''"
    unfolding eq base one by blast+
  have "''dare'' \<in> set (group_words garden_game 1)" unfolding grp by simp
  with w have dare: "''dare'' \<in> set (map toLowerCase garden_dictionary) \<and>
              (\<forall>c\<in>set ''dare''. \<not> upper_case c) \<and>
              length ''dare'' = 4 \<and>
              mset ''dare'' \<subseteq># mset ''garden''"
    by (rule bspec)
  then have "\<not> upper_case CHR ''d''" "\<not> upper_case CHR ''a''"
    "\<not> upper_case CHR ''r''" "\<not> upper_case CHR ''e''"
    by simp_all
  moreover have "''DARE'' \<in> set garden_dictionary" "''dare'' \<notin> set garden_dictionary"
    by (simp_all add: garden_dictionary_def)
  ultimately show ?thesis
    using h g'(2) d grp dare unfolding eq by (simp only: createGame_garden simp_thms)
qed

section \<open>Properties of the letter pool and the input box\<close>

lemma lastIndexOf_range: "- 1 \<le> lastIndexOf xs x \<and> lastIndexOf xs x < int (length xs)"
  by (induction xs) (auto simp: Let_def)

lemma lastIndexOf_absent: "lastIndexOf xs x < 0 \<longleftrightarrow> x \<notin> set xs"
proof (induction xs)
  case Nil
  then show ?case by simp
next
  case (Cons y ys)
  then show ?case
    using lastIndexOf_range[of ys x] by (auto simp: Let_def)
qed

lemma lastIndexOf_last:
  "0 \<le> lastIndexOf xs x \<Longrightarrow>
     xs ! nat (lastIndexOf xs x) = x \<and>
     (\<forall>k. nat (lastIndexOf xs x) < k \<and> k < length xs \<longrightarrow> xs ! k \<noteq> x)"
proof (induction xs)
  case Nil
  then show ?case by simp
next
  case (Cons y ys)
  show ?case
  proof (cases "0 \<le> lastIndexOf ys x")
    case True
    with Cons.IH have ih: "ys ! nat (lastIndexOf ys x) = x"
      "\<And>k. nat (lastIndexOf ys x) < k \<Longrightarrow> k < length ys \<Longrightarrow> ys ! k \<noteq> x"
      by auto
    from True have r: "nat (lastIndexOf (y # ys) x) = Suc (nat (lastIndexOf ys x))"
      by (simp add: Let_def nat_add_distrib)
    show ?thesis
      unfolding r using ih by (auto simp: nth_Cons split: nat.splits)
  next
    case False
    then have "x \<notin> set ys" using lastIndexOf_absent[of ys x] by simp
    moreover from False Cons.prems have "y = x" "lastIndexOf (y # ys) x = 0"
      by (auto simp: Let_def split: if_splits)
    ultimately show ?thesis
      by (auto simp: nth_Cons split: nat.splits)
  qed
qed

lemma occupied_le: "occupied pool \<le> length pool"
  by (simp add: occupied_def)

lemma occupied_full: "[] \<notin> set pool \<Longrightarrow> occupied pool = length pool"
  unfolding occupied_def by (induction pool) auto

lemma occupied_less: "occupied pool < length pool \<Longrightarrow> [] \<in> set pool"
  using occupied_full[of pool] by auto

lemma occupied_update:
  "k < length pool \<Longrightarrow>
     occupied (pool[k := c]) + (if pool ! k \<noteq> [] then 1 else 0)
       = occupied pool + (if c \<noteq> [] then 1 else 0)"
proof -
  assume k: "k < length pool"
  have app: "occupied (xs @ y # ys) = occupied xs + (if y \<noteq> [] then 1 else 0) + occupied ys"
    for xs ys :: "string list" and y
    by (simp add: occupied_def)
  have "occupied (pool[k := c]) = occupied (take k pool @ c # drop (Suc k) pool)"
    using k by (simp only: upd_conv_take_nth_drop)
  moreover have "occupied pool = occupied (take k pool @ pool ! k # drop (Suc k) pool)"
    using k by (simp only: id_take_nth_drop[symmetric])
  ultimately show ?thesis
    by (simp only: app)
qed

lemma mset_shuffle_loop:
  "k < length array \<or> k = 0 \<Longrightarrow> mset (shuffle_loop rnd k array) = mset array"
proof (induction k arbitrary: array)
  case 0
  then show ?case by simp
next
  case (Suc k)
  let ?j = "rnd (Suc k) mod (Suc k + 1)"
  from Suc.prems have i: "Suc k < length array" by simp
  have "?j < Suc k + 1" by (rule mod_less_divisor) simp
  with i have j: "?j < length array" by linarith
  have "mset (array[Suc k := array ! ?j, ?j := array ! Suc k]) = mset array"
    using j i by (rule mset_swap)
  moreover have "k < length (array[Suc k := array ! ?j, ?j := array ! Suc k]) \<or> k = 0"
    using i by simp
  ultimately show ?case
    using Suc.IH[of "array[Suc k := array ! ?j, ?j := array ! Suc k]"]
    by (simp add: Let_def)
qed

lemma mset_shuffle: "mset (shuffle rnd array) = mset array"
  unfolding shuffle_def by (rule mset_shuffle_loop) (cases array; simp)

lemma occupied_mset: "mset xs = mset ys \<Longrightarrow> occupied xs = occupied ys"
proof -
  assume "mset xs = mset ys"
  then have "mset (filter (\<lambda>c. c \<noteq> []) xs) = mset (filter (\<lambda>c. c \<noteq> []) ys)"
    by (simp only: mset_filter)
  then show ?thesis
    unfolding occupied_def by (rule mset_eq_length)
qed

lemma enterChar_pool_inv:
  assumes "pool_inv n g"
  shows "pool_inv n (snd (enterChar index g))"
proof (cases "avail_at g index = []")
  case True
  with assms show ?thesis by (simp add: enterChar_def)
next
  case False
  with assms have idx: "0 \<le> index" "nat index < length (avail_letters g)"
    and c: "avail_letters g ! nat index \<noteq> []"
    by (auto simp: avail_at_def pool_inv_def split: if_splits)
  from occupied_update[OF idx(2), of "[]"] c
  have "occupied ((avail_letters g)[nat index := []]) + 1 = occupied (avail_letters g)"
    by simp
  with assms idx c show ?thesis
    by (auto simp: enterChar_def Let_def avail_at_def avail_set_def call_ui_def pool_inv_def)
qed

lemma backspaceChar_slot:
  assumes "pool_inv n g" "input_box g \<noteq> []"
  shows "0 \<le> lastIndexOf (avail_letters g) []"
    and "nat (lastIndexOf (avail_letters g) []) < length (avail_letters g)"
proof -
  from assms have "occupied (avail_letters g) < length (avail_letters g)"
    by (cases "input_box g") (auto simp: pool_inv_def)
  then have "[] \<in> set (avail_letters g)" by (rule occupied_less)
  then show "0 \<le> lastIndexOf (avail_letters g) []"
    using lastIndexOf_absent[of "avail_letters g" "[]"] by auto
  then show "nat (lastIndexOf (avail_letters g) []) < length (avail_letters g)"
    using lastIndexOf_range[of "avail_letters g" "[]"] by auto
qed

lemma backspaceChar_success:
  "fst (backspaceChar index g) \<longleftrightarrow>
     input_box g \<noteq> [] \<and> (index = None \<or> index = Some (int (length (input_box g)) - 1))"
  by (cases index) (auto simp: backspaceChar_def Let_def)

lemma backspaceChar_failure: "\<not> fst (backspaceChar index g) \<Longrightarrow> snd (backspaceChar index g) = g"
  by (auto simp: backspaceChar_def Let_def split: if_splits)

lemma backspaceChar_effect:
  assumes "pool_inv n g" "fst (backspaceChar index g)"
  shows "input_box (snd (backspaceChar index g)) = butlast (input_box g)"
    and "avail_letters (snd (backspaceChar index g)) =
           (avail_letters g)[nat (lastIndexOf (avail_letters g) []) := last (input_box g)]"
    and "avail_minus1 (snd (backspaceChar index g)) = avail_minus1 g"
proof -
  from assms(2) have ne: "input_box g \<noteq> []"
    by (simp add: backspaceChar_success)
  note slot = backspaceChar_slot[OF assms(1) ne]
  from assms(2) have s: "snd (backspaceChar index g) =
      call_ui (AddToChoices (last (input_box g)))
        (avail_set (lastIndexOf (avail_letters g) []) (last (input_box g))
          (call_ui UIBackspaceChar (g\<lparr>input_box := butlast (input_box g)\<rparr>)))"
    by (auto simp: backspaceChar_def Let_def call_ui_def split: if_splits)
  show "input_box (snd (backspaceChar index g)) = butlast (input_box g)"
    unfolding s using slot by (simp add: call_ui_def avail_set_def)
  show "avail_letters (snd (backspaceChar index g)) =
           (avail_letters g)[nat (lastIndexOf (avail_letters g) []) := last (input_box g)]"
    unfolding s using slot by (simp add: call_ui_def avail_set_def)
  show "avail_minus1 (snd (backspaceChar index g)) = avail_minus1 g"
    unfolding s using slot by (simp add: call_ui_def avail_set_def)
qed

lemma backspaceChar_pool_inv:
  assumes "pool_inv n g"
  shows "pool_inv n (snd (backspaceChar index g))"
proof (cases "fst (backspaceChar index g)")
  case False
  with assms show ?thesis by (simp add: backspaceChar_failure)
next
  case True
  then have ne: "input_box g \<noteq> []" by (simp add: backspaceChar_success)
  note slot = backspaceChar_slot[OF assms ne]
  let ?k = "nat (lastIndexOf (avail_letters g) [])"
  from lastIndexOf_last[OF slot(1)] have empty: "avail_letters g ! ?k = []" by simp
  from assms ne have c: "last (input_box g) \<noteq> []"
    by (metis last_in_set pool_inv_def)
  from occupied_update[OF slot(2), of "last (input_box g)"] empty c
  have "occupied ((avail_letters g)[?k := last (input_box g)]) = occupied (avail_letters g) + 1"
    by simp
  moreover from ne have "length (butlast (input_box g)) + 1 = length (input_box g)"
    by simp
  moreover have "[] \<notin> set (butlast (input_box g))"
    using assms by (auto simp: pool_inv_def dest: in_set_butlastD)
  ultimately show ?thesis
    using assms backspaceChar_effect[OF assms True]
    by (simp add: pool_inv_def)
qed

lemma pool_run_inv: "pool_inv n g \<Longrightarrow> pool_inv n (pool_run calls g)"
proof (induction calls arbitrary: g)
  case Nil
  then show ?case by simp
next
  case (Cons c calls)
  then have "pool_inv n (pool_step c g)"
    by (cases c) (simp_all add: enterChar_pool_inv backspaceChar_pool_inv)
  then show ?case using Cons.IH by simp
qed

lemma createGame_pool:
  assumes "createGame dictionary pick rnd g = Inr g0"
  shows "avail_letters g0 = shuffle rnd (baseWord dictionary pick)"
    and "input_box g0 = []" and "avail_minus1 g0 = None" and "gaveup g0 = False"
    and "score g0 = score g" and "mp_scores g0 = mp_scores g"
    and "answers g0 = map (\<lambda>a. map (\<lambda>b. (b, None)) a)
                         (gamewords dictionary (baseWord dictionary pick))"
    and "possibilities dictionary \<noteq> []"
  using assms
  by (auto simp: createGame_def Let_def shuffleLetters_def call_ui_def split: if_splits)

lemma createGame_pool_inv:
  assumes "createGame dictionary pick rnd g = Inr g0"
  shows "pool_inv 6 g0"
proof -
  note f = createGame_pool[OF assms]
  from baseWord_picked[OF f(8)] obtain bw where
    bw: "baseWord dictionary pick = split_chars bw" "length bw = 6" by blast
  have m: "mset (avail_letters g0) = mset (split_chars bw)"
    unfolding f(1) bw(1) by (rule mset_shuffle)
  then have "length (avail_letters g0) = 6"
    using mset_eq_length[OF m] bw(2) by (simp add: split_chars_def)
  moreover have "[] \<notin> set (split_chars bw)" by (auto simp: split_chars_def)
  then have "occupied (split_chars bw) = 6"
    using occupied_full[of "split_chars bw"] bw(2) by (simp add: split_chars_def)
  then have "occupied (avail_letters g0) = 6"
    using occupied_mset[OF m] by simp
  ultimately show ?thesis
    using f(2,3) by (simp add: pool_inv_def)
qed

text \<open>
  C8. From a game that \<^verbatim>\<open>createGame\<close> has just made, after every sequence of calls of
  \<^verbatim>\<open>enterChar\<close> and \<^verbatim>\<open>backspaceChar\<close>, whatever their arguments and whether they
  succeed or fail, the letters of the input box and the occupied slots of the pool are
  together as many as the letters of the base word, which are six.
\<close>

theorem pool_buffer_invariant:
  assumes "createGame dictionary pick rnd g = Inr g0"
  shows "length (input_box (pool_run calls g0)) + occupied (avail_letters (pool_run calls g0))
           = length (baseWord dictionary pick)
         \<and> length (baseWord dictionary pick) = 6"
proof -
  from createGame_pool_inv[OF assms] have "pool_inv 6 (pool_run calls g0)"
    by (rule pool_run_inv)
  moreover from baseWord_picked[OF createGame_pool(8)[OF assms], of pick]
  have "length (baseWord dictionary pick) = 6"
    by (auto simp: split_chars_def)
  ultimately show ?thesis by (simp add: pool_inv_def)
qed

theorem pool_buffer_invariant_witness:
  "createGame garden_dictionary 0 id loaded = Inr garden_game \<and>
   length (input_box (pool_run [EnterChar 0, EnterChar 7, BackspaceChar (Some 3), EnterChar 2,
                                BackspaceChar None] garden_game))
     + occupied (avail_letters (pool_run [EnterChar 0, EnterChar 7, BackspaceChar (Some 3),
                                EnterChar 2, BackspaceChar None] garden_game))
     = length (baseWord garden_dictionary 0)
   \<and> length (baseWord garden_dictionary 0) = 6"
  using createGame_garden
    pool_buffer_invariant[OF createGame_garden,
      of "[EnterChar 0, EnterChar 7, BackspaceChar (Some 3), EnterChar 2, BackspaceChar None]"]
  by (rule conjI)

lemma garden_two_entered:
  "avail_letters garden_ga = [[], [], ''r'', ''d'', ''e'', ''n'']"
  "input_box garden_ga = [''g'', ''a'']"
  "avail_minus1 garden_ga = None"
  by (simp_all add: garden_ga_def garden_game_eq loaded_def enterChar_def avail_at_def
        avail_set_def call_ui_def Let_def)

text \<open>
  C7, as stated, fails. In the scenario game the letters g and a are entered from
  slots 0 and 1. \<^verbatim>\<open>backspaceChar()\<close> then succeeds and puts the a into slot 1, the
  empty slot of highest index; slot 0, the empty slot of lowest index, stays empty.
\<close>

theorem backspaceChar_lowest_slot_counterexample:
  "fst (backspaceChar None garden_ga) \<and>
   input_box garden_ga = [''g'', ''a''] \<and>
   avail_letters garden_ga
     = [[], [], ''r'', ''d'', ''e'', ''n''] \<and>
   indexOf (avail_letters garden_ga) [] = 0 \<and>
   avail_letters (snd (backspaceChar None garden_ga))
     = [[], ''a'', ''r'', ''d'', ''e'', ''n''] \<and>
   avail_letters (snd (backspaceChar None garden_ga))
     \<noteq> [''a'', [], ''r'', ''d'', ''e'', ''n'']"
  by (simp add: backspaceChar_def garden_two_entered avail_set_def call_ui_def Let_def)

text \<open>
  C7, amended. In a game whose pool and input box are as \<^verbatim>\<open>createGame\<close>,
  \<^verbatim>\<open>enterChar\<close> and \<^verbatim>\<open>backspaceChar\<close> leave them, \<^verbatim>\<open>backspaceChar(index)\<close>
  succeeds if and only if the input box is not empty and \<open>index\<close> is omitted or is the
  last position of the input box. On success the last letter leaves the input box and
  goes into the empty slot of the pool of highest index. On failure nothing changes.
\<close>

theorem backspaceChar_highest_slot:
  assumes "pool_inv n g"
  shows "(fst (backspaceChar index g) \<longleftrightarrow>
            input_box g \<noteq> [] \<and> (index = None \<or> index = Some (int (length (input_box g)) - 1)))
         \<and> (\<not> fst (backspaceChar index g) \<longrightarrow> snd (backspaceChar index g) = g)
         \<and> (fst (backspaceChar index g) \<longrightarrow>
              input_box (snd (backspaceChar index g)) = butlast (input_box g) \<and>
              (\<exists>k<length (avail_letters g).
                 avail_letters g ! k = [] \<and>
                 (\<forall>k'. k < k' \<and> k' < length (avail_letters g) \<longrightarrow> avail_letters g ! k' \<noteq> []) \<and>
                 avail_letters (snd (backspaceChar index g))
                   = (avail_letters g)[k := last (input_box g)]))"
proof (intro conjI impI)
  show "fst (backspaceChar index g) \<longleftrightarrow>
          input_box g \<noteq> [] \<and> (index = None \<or> index = Some (int (length (input_box g)) - 1))"
    by (rule backspaceChar_success)
next
  assume "\<not> fst (backspaceChar index g)"
  then show "snd (backspaceChar index g) = g" by (rule backspaceChar_failure)
next
  assume ok: "fst (backspaceChar index g)"
  from backspaceChar_effect(1)[OF assms ok]
  show "input_box (snd (backspaceChar index g)) = butlast (input_box g)" .
next
  assume ok: "fst (backspaceChar index g)"
  then have ne: "input_box g \<noteq> []" by (simp add: backspaceChar_success)
  note slot = backspaceChar_slot[OF assms ne]
  let ?k = "nat (lastIndexOf (avail_letters g) [])"
  from lastIndexOf_last[OF slot(1)] have
    "avail_letters g ! ?k = []"
    "\<forall>k'. ?k < k' \<and> k' < length (avail_letters g) \<longrightarrow> avail_letters g ! k' \<noteq> []"
    by simp_all
  with slot(2) backspaceChar_effect(2)[OF assms ok]
  show "\<exists>k<length (avail_letters g).
          avail_letters g ! k = [] \<and>
          (\<forall>k'. k < k' \<and> k' < length (avail_letters g) \<longrightarrow> avail_letters g ! k' \<noteq> []) \<and>
          avail_letters (snd (backspaceChar index g)) = (avail_letters g)[k := last (input_box g)]"
    by blast
qed

theorem backspaceChar_highest_slot_witness:
  "pool_inv 6 garden_ga \<and>
   fst (backspaceChar (Some 1) garden_ga) \<and>
   \<not> fst (backspaceChar (Some 0) garden_ga) \<and>
   snd (backspaceChar (Some 0) garden_ga)
     = garden_ga \<and>
   input_box (snd (backspaceChar (Some 1) garden_ga))
     = [''g''] \<and>
   avail_letters (snd (backspaceChar (Some 1) garden_ga))
     = [[], ''a'', ''r'', ''d'', ''e'', ''n'']"
proof -
  let ?g = garden_ga
  have inv: "pool_inv 6 ?g"
    unfolding garden_ga_def
    by (rule pool_run_inv) (rule createGame_pool_inv[OF createGame_garden])
  have ok: "fst (backspaceChar (Some 1) ?g)"
    using backspaceChar_highest_slot[OF inv, of "Some 1"]
    by (simp add: garden_two_entered)
  have fail: "\<not> fst (backspaceChar (Some 0) ?g)"
    using backspaceChar_highest_slot[OF inv, of "Some 0"]
    by (simp add: garden_two_entered)
  from backspaceChar_highest_slot[OF inv, of "Some 0"] fail
  have same: "snd (backspaceChar (Some 0) ?g) = ?g" by blast
  from backspaceChar_highest_slot[OF inv, of "Some 1"] ok
  have "input_box (snd (backspaceChar (Some 1) ?g)) = butlast (input_box ?g)"
    and "\<exists>k<length (avail_letters ?g).
           avail_letters ?g ! k = [] \<and>
           (\<forall>k'. k < k' \<and> k' < length (avail_letters ?g) \<longrightarrow> avail_letters ?g ! k' \<noteq> []) \<and>
           avail_letters (snd (backspaceChar (Some 1) ?g))
             = (avail_letters ?g)[k := last (input_box ?g)]"
    by blast+
  then obtain k where b: "input_box (snd (backspaceChar (Some 1) ?g)) = butlast (input_box ?g)"
    and k: "k < length (avail_letters ?g)" "avail_letters ?g ! k = []"
      "\<forall>k'. k < k' \<and> k' < length (avail_letters ?g) \<longrightarrow> avail_letters ?g ! k' \<noteq> []"
      "avail_letters (snd (backspaceChar (Some 1) ?g))
         = (avail_letters ?g)[k := last (input_box ?g)]"
    by blast
  from b have box: "input_box (snd (backspaceChar (Some 1) ?g)) = [''g'']"
    by (simp add: garden_two_entered)
  from k(1) have "k < 6" by (simp add: garden_two_entered)
  then consider "k = 0" | "k = 1" | "k = 2" | "k = 3" | "k = 4" | "k = 5" by linarith
  then have "k = 1"
  proof cases
    case 1
    have "k < 1 \<and> 1 < length (avail_letters ?g)"
      unfolding 1 by (simp add: garden_two_entered)
    with k(3) have "avail_letters ?g ! 1 \<noteq> []" by blast
    then show ?thesis by (simp add: garden_two_entered)
  qed (use k(2) in \<open>simp_all add: garden_two_entered\<close>)
  with k(4) have "avail_letters (snd (backspaceChar (Some 1) ?g))
     = [[], ''a'', ''r'', ''d'', ''e'', ''n'']" by (simp add: garden_two_entered)
  with inv ok fail same box show ?thesis by blast
qed

section \<open>Properties of the answer ledger and the scores\<close>

subsection \<open>\<^verbatim>\<open>checkWord\<close> finds the first exact match\<close>

lemma checkGroup_None: "checkGroup word grp = None \<longleftrightarrow> word \<notin> fst ` set grp"
  by (induction grp) (auto split: option.splits)

lemma checkGroup_Some:
  "checkGroup word grp = Some (j, c) \<Longrightarrow>
     j < length grp \<and> grp ! j = (word, c) \<and> (\<forall>j'<j. fst (grp ! j') \<noteq> word)"
proof (induction grp arbitrary: j)
  case Nil
  then show ?case by simp
next
  case (Cons e es)
  show ?case
  proof (cases "fst e = word")
    case True
    with Cons.prems show ?thesis by (cases e) auto
  next
    case False
    with Cons.prems obtain j0 where j0: "checkGroup word es = Some (j0, c)" "j = Suc j0"
      by (auto split: option.splits)
    from Cons.IH[OF j0(1)] False show ?thesis
      unfolding j0(2) by (auto simp: nth_Cons split: nat.splits)
  qed
qed

lemma checkGroups_None:
  "checkGroups word grps = None \<longleftrightarrow> word \<notin> fst ` set (concat grps)"
proof (induction grps)
  case Nil
  then show ?case by simp
next
  case (Cons grp grps)
  show ?case
  proof (cases "checkGroup word grp")
    case None
    then have "word \<notin> fst ` set grp" by (simp add: checkGroup_None)
    with None Cons.IH show ?thesis
      by (auto split: option.splits)
  next
    case (Some a)
    then have "word \<in> fst ` set grp"
      using checkGroup_None[of word grp] by simp
    with Some show ?thesis
      by (auto split: prod.splits)
  qed
qed

lemma checkGroups_Some:
  "checkGroups word grps = Some (i, j, c) \<Longrightarrow>
     i < length grps \<and> j < length (grps ! i) \<and> grps ! i ! j = (word, c) \<and>
     (\<forall>i'<i. word \<notin> fst ` set (grps ! i')) \<and> (\<forall>j'<j. fst (grps ! i ! j') \<noteq> word)"
proof (induction grps arbitrary: i)
  case Nil
  then show ?case by simp
next
  case (Cons grp grps)
  show ?case
  proof (cases "checkGroup word grp")
    case None
    with Cons.prems obtain i0 where i0: "checkGroups word grps = Some (i0, j, c)" "i = Suc i0"
      by (auto split: option.splits)
    from None have "word \<notin> fst ` set grp" by (simp add: checkGroup_None)
    with Cons.IH[OF i0(1)] show ?thesis
      unfolding i0(2) by (auto simp: nth_Cons split: nat.splits)
  next
    case (Some a)
    with Cons.prems have "checkGroup word grp = Some (j, c)" "i = 0"
      by (cases a; auto)+
    with checkGroup_Some[of word grp j c] show ?thesis by simp
  qed
qed

lemma checkGroup_claimed:
  "checkGroup word grp = Some (j, c) \<Longrightarrow> checkGroup word (grp[j := (word, c')]) = Some (j, c')"
proof (induction grp arbitrary: j)
  case Nil
  then show ?case by simp
next
  case (Cons e es)
  then show ?case
    by (cases "fst e = word") (auto split: option.splits)
qed

lemma checkGroup_other:
  "fst (grp ! j) = x \<Longrightarrow> x \<noteq> word \<Longrightarrow> checkGroup word (grp[j := (x, c')]) = checkGroup word grp"
proof (induction grp arbitrary: j)
  case Nil
  then show ?case by simp
next
  case (Cons e es)
  then show ?case
    by (cases j) auto
qed

lemma checkGroups_claimed:
  "checkGroups word grps = Some (i, j, c) \<Longrightarrow>
     checkGroups word (grps[i := (grps ! i)[j := (word, c')]]) = Some (i, j, c')"
proof (induction grps arbitrary: i)
  case Nil
  then show ?case by simp
next
  case (Cons grp grps)
  show ?case
  proof (cases "checkGroup word grp")
    case None
    with Cons.prems obtain i0 where i0: "checkGroups word grps = Some (i0, j, c)" "i = Suc i0"
      by (auto split: option.splits)
    from Cons.IH[OF i0(1)] None show ?thesis
      unfolding i0(2) by simp
  next
    case (Some a)
    with Cons.prems have "checkGroup word grp = Some (j, c)" "i = 0"
      by (cases a; auto)+
    with checkGroup_claimed[of word grp j c c'] show ?thesis by simp
  qed
qed

lemma checkGroups_other:
  "fst (grps ! i ! j) = x \<Longrightarrow> x \<noteq> word \<Longrightarrow>
     checkGroups word (grps[i := (grps ! i)[j := (x, c')]]) = checkGroups word grps"
proof (induction grps arbitrary: i)
  case Nil
  then show ?case by simp
next
  case (Cons grp grps)
  show ?case
  proof (cases i)
    case 0
    with Cons.prems show ?thesis by (simp add: checkGroup_other)
  next
    case (Suc i0)
    with Cons.prems have "fst (grps ! i0 ! j) = x" by simp
    from Cons.IH[OF this Cons.prems(2)] show ?thesis
      unfolding Suc by (simp split: option.splits)
  qed
qed

subsection \<open>What \<^verbatim>\<open>onWordGuess\<close> does\<close>

lemma onWordGuess_absent: "checkWord g word = None \<Longrightarrow> onWordGuess word p g = g"
  by (simp add: onWordGuess_def)

lemma onWordGuess_claimed:
  "checkWord g word = Some (i, j, c) \<Longrightarrow> truthy c \<Longrightarrow> onWordGuess word p g = g"
  by (simp add: onWordGuess_def)

lemma answers_addScore [simp]: "answers (addScore pts g) = answers g"
  by (simp add: addScore_def call_ui_def Let_def)

lemma answers_addPlayerScore [simp]: "answers (addPlayerScore pts name g) = answers g"
  by (simp add: addPlayerScore_def call_ui_def Let_def)

lemma gaveup_addScore [simp]: "gaveup (addScore pts g) = gaveup g"
  by (simp add: addScore_def call_ui_def Let_def)

lemma gaveup_addPlayerScore [simp]: "gaveup (addPlayerScore pts name g) = gaveup g"
  by (simp add: addPlayerScore_def call_ui_def Let_def)

lemma answers_onWordGuess:
  assumes "checkWord g word = Some (i, j, c)" "\<not> truthy c"
  shows "answers (onWordGuess word p g) = (answers g)[i := (answers g ! i)[j := (word, Some p)]]"
proof -
  from checkGroups_Some[OF assms(1)[unfolded checkWord_def]]
  have "fst (answers g ! i ! j) = word" by simp
  with assms show ?thesis
    by (cases p) (simp_all add: onWordGuess_def Let_def set_claimant_def call_ui_def)
qed

lemma gaveup_onWordGuess: "gaveup (onWordGuess word p g) = gaveup g"
  by (cases p)
     (auto simp: onWordGuess_def Let_def set_claimant_def call_ui_def split: option.splits)

lemma checkWord_onWordGuess_same:
  assumes "checkWord g word = Some (i, j, c)" "\<not> truthy c"
  shows "checkWord (onWordGuess word p g) word = Some (i, j, Some p)"
  unfolding checkWord_def answers_onWordGuess[OF assms]
  using assms(1) unfolding checkWord_def by (rule checkGroups_claimed)

lemma checkWord_onWordGuess_other:
  assumes "word' \<noteq> word"
  shows "checkWord (onWordGuess word' p g) word = checkWord g word"
proof (cases "checkWord g word'")
  case None
  then show ?thesis by (simp add: onWordGuess_absent)
next
  case (Some a)
  then obtain i j c where a: "checkWord g word' = Some (i, j, c)" by (cases a) auto
  show ?thesis
  proof (cases "truthy c")
    case True
    with a show ?thesis by (simp add: onWordGuess_claimed)
  next
    case False
    from checkGroups_Some[OF a[unfolded checkWord_def]]
    have "fst (answers g ! i ! j) = word'" by simp
    from checkGroups_other[OF this assms]
    show ?thesis
      unfolding checkWord_def answers_onWordGuess[OF a False] .
  qed
qed

lemma claimed_stays:
  assumes "checkWord g word = Some (i, j, c)" "truthy c"
  shows "checkWord (guesses ws g) word = Some (i, j, c)"
  using assms
proof (induction ws arbitrary: g)
  case Nil
  then show ?case by simp
next
  case (Cons a ws)
  obtain word' p where a: "a = (word', p)" by (cases a)
  have "checkWord (onWordGuess word' p g) word = Some (i, j, c)"
  proof (cases "word' = word")
    case True
    with Cons.prems show ?thesis by (simp add: onWordGuess_claimed)
  next
    case False
    with Cons.prems show ?thesis by (simp add: checkWord_onWordGuess_other)
  qed
  from Cons.IH[OF this Cons.prems(2)] show ?case
    unfolding a by simp
qed

subsection \<open>Scores\<close>

lemma plain_name_not_proto:
  "name \<notin> set object_prototype_names \<Longrightarrow> name \<noteq> ''__proto__''"
  by (auto simp: object_prototype_names_def)

lemma mp_read_plain:
  "name \<notin> set object_prototype_names \<Longrightarrow>
     mp_read m name = (case m name of Some v \<Rightarrow> v | None \<Rightarrow> Undefined)"
  using plain_name_not_proto[of name] by (simp add: mp_read_def)

lemma mp_write_plain:
  "name \<notin> set object_prototype_names \<Longrightarrow> mp_write m name v = m(name \<mapsto> v)"
  using plain_name_not_proto[of name] by (simp add: mp_write_def)

lemma mp_write_other: "other \<noteq> name \<Longrightarrow> mp_write m name v other = m other"
  by (simp add: mp_write_def)

lemma onWordGuess_reveal_score:
  assumes "checkWord g word = Some (i, j, c)" "\<not> truthy c" "\<not> gaveup g"
  shows "score (onWordGuess word p g)
           = (if p = System then score g else js_add (score g) (pointvalues (length word)))"
  using assms
  by (cases p)
     (simp_all add: onWordGuess_def Let_def set_claimant_def call_ui_def addScore_def
        addPlayerScore_def del: pointvalues.simps)

lemma onWordGuess_reveal_mp_scores:
  assumes "checkWord g word = Some (i, j, c)" "\<not> truthy c" "\<not> gaveup g"
  shows "mp_scores (onWordGuess word p g)
           = (case p of
                Named name \<Rightarrow>
                  mp_write (mp_scores g) name
                    (if truthy_num (mp_read (mp_scores g) name)
                     then js_add (mp_read (mp_scores g) name) (pointvalues (length word))
                     else pointvalues (length word))
              | _ \<Rightarrow> mp_scores g)"
  using assms
  by (cases p)
     (simp_all add: onWordGuess_def Let_def set_claimant_def call_ui_def addScore_def
        addPlayerScore_def del: pointvalues.simps)

lemma onWordGuess_gaveup:
  assumes "gaveup g"
  shows "score (onWordGuess word p g) = score g"
    and "mp_scores (onWordGuess word p g) = mp_scores g"
  using assms
  by (auto simp: onWordGuess_def Let_def set_claimant_def call_ui_def split: option.splits)

lemma guesses_gaveup:
  "gaveup g \<Longrightarrow>
     gaveup (guesses ws g) \<and> score (guesses ws g) = score g
       \<and> mp_scores (guesses ws g) = mp_scores g"
proof (induction ws arbitrary: g)
  case Nil
  then show ?case by simp
next
  case (Cons a ws)
  obtain word p where a: "a = (word, p)" by (cases a)
  from Cons.prems have "gaveup (onWordGuess word p g)" by (simp add: gaveup_onWordGuess)
  from Cons.IH[OF this] Cons.prems show ?case
    unfolding a by (simp add: onWordGuess_gaveup)
qed

lemma found_in_entries:
  assumes "checkWord g word = Some (i, j, c)"
  shows "(word, c) \<in> set (entries g)"
proof -
  from checkGroups_Some[OF assms[unfolded checkWord_def]]
  have "i < length (answers g)" "j < length (answers g ! i)" "answers g ! i ! j = (word, c)"
    by simp_all
  then have "(word, c) \<in> set (answers g ! i)" "answers g ! i \<in> set (answers g)"
    by (metis nth_mem)+
  then show ?thesis unfolding entries_def by auto
qed

lemma pointvalues_table:
  "n \<in> {3, 4, 5, 6} \<Longrightarrow>
     \<exists>pts. pointvalues n = Num pts \<and>
       (n = 3 \<and> pts = 90 \<or> n = 4 \<and> pts = 160 \<or> n = 5 \<and> pts = 250 \<or> n = 6 \<and> pts = 360)"
  by auto

lemma player_score_Num:
  assumes "scores_ok g" "name \<notin> set object_prototype_names"
  shows "\<exists>m. player_score g name = Num m"
proof -
  from assms have "mp_scores g name = None \<or> (\<exists>m. mp_scores g name = Some (Num m))"
    by (simp add: scores_ok_def)
  then show ?thesis
    by (auto simp: player_score_def mp_read_plain[OF assms(2)])
qed

lemma player_score_add:
  assumes "scores_ok g" "name \<notin> set object_prototype_names"
    and "player_score g name = Num m"
    and "mp_scores g' =
           mp_write (mp_scores g) name
             (if truthy_num (mp_read (mp_scores g) name)
              then js_add (mp_read (mp_scores g) name) (Num pts) else Num pts)"
  shows "player_score g' name = Num (m + pts)"
proof -
  from assms(1,2) have "mp_scores g name = None \<or> (\<exists>k. mp_scores g name = Some (Num k))"
    by (simp add: scores_ok_def)
  with assms(3,4) show ?thesis
    by (auto simp: player_score_def mp_read_plain[OF assms(2)] mp_write_plain[OF assms(2)])
qed

text \<open>
  What C4 says, for every claimant but a player named like a member of
  \<^verbatim>\<open>Object.prototype\<close>. In a game whose ledger and scores are as \<^verbatim>\<open>createGame\<close>
  and \<^verbatim>\<open>onWordGuess\<close> leave them, when \<^verbatim>\<open>onWordGuess(word, p)\<close> finds \<open>word\<close> not
  yet answered and the game has not been given up, the points of the word are those of
  the table (90, 160, 250, 360 for the lengths 3, 4, 5, 6). A claim by the system
  sentinel changes no score. A claim by the local player adds the points to the total
  score and changes no player's score. A claim by a named player adds the points to the
  total score and, when the name is not the name of a member of
  \<^verbatim>\<open>Object.prototype\<close>, to that player's score; it changes no other player's entry.
\<close>

lemma onWordGuess_points:
  assumes "ledger_ok g" "scores_ok g"
    and "checkWord g word = Some (i, j, c)" "\<not> truthy c" "\<not> gaveup g"
  shows "\<exists>s pts. score g = Num s \<and> pointvalues (length word) = Num pts \<and>
           (length word = 3 \<and> pts = 90 \<or> length word = 4 \<and> pts = 160
              \<or> length word = 5 \<and> pts = 250 \<or> length word = 6 \<and> pts = 360) \<and>
           (case p of
              System \<Rightarrow>
                score (onWordGuess word p g) = score g \<and>
                mp_scores (onWordGuess word p g) = mp_scores g
            | Local \<Rightarrow>
                score (onWordGuess word p g) = Num (s + pts) \<and>
                mp_scores (onWordGuess word p g) = mp_scores g
            | Named name \<Rightarrow>
                score (onWordGuess word p g) = Num (s + pts) \<and>
                (name \<notin> set object_prototype_names \<longrightarrow>
                   (\<exists>m. player_score g name = Num m \<and>
                        player_score (onWordGuess word p g) name = Num (m + pts))) \<and>
                (\<forall>other. other \<noteq> name \<longrightarrow>
                     mp_scores (onWordGuess word p g) other = mp_scores g other))"
proof -
  from assms(2) obtain s where s: "score g = Num s" by (auto simp: scores_ok_def)
  from found_in_entries[OF assms(3)] assms(1) have "length word \<in> {3, 4, 5, 6}"
    unfolding ledger_ok_def by force
  from pointvalues_table[OF this] obtain pts where
    pts: "pointvalues (length word) = Num pts"
      "length word = 3 \<and> pts = 90 \<or> length word = 4 \<and> pts = 160
         \<or> length word = 5 \<and> pts = 250 \<or> length word = 6 \<and> pts = 360"
    by blast
  note sc = onWordGuess_reveal_score[OF assms(3,4,5), of p, unfolded pts(1) s]
  note mp = onWordGuess_reveal_mp_scores[OF assms(3,4,5), of p, unfolded pts(1)]
  have "case p of
              System \<Rightarrow>
                score (onWordGuess word p g) = score g \<and>
                mp_scores (onWordGuess word p g) = mp_scores g
            | Local \<Rightarrow>
                score (onWordGuess word p g) = Num (s + pts) \<and>
                mp_scores (onWordGuess word p g) = mp_scores g
            | Named name \<Rightarrow>
                score (onWordGuess word p g) = Num (s + pts) \<and>
                (name \<notin> set object_prototype_names \<longrightarrow>
                   (\<exists>m. player_score g name = Num m \<and>
                        player_score (onWordGuess word p g) name = Num (m + pts))) \<and>
                (\<forall>other. other \<noteq> name \<longrightarrow>
                     mp_scores (onWordGuess word p g) other = mp_scores g other)"
  proof (cases p)
    case Local
    with sc mp show ?thesis by simp
  next
    case System
    with sc mp s show ?thesis by simp
  next
    case (Named name)
    from mp Named have mp': "mp_scores (onWordGuess word p g)
        = mp_write (mp_scores g) name
            (if truthy_num (mp_read (mp_scores g) name)
             then js_add (mp_read (mp_scores g) name) (Num pts) else Num pts)"
      by simp
    have "\<exists>m. player_score g name = Num m \<and>
              player_score (onWordGuess word p g) name = Num (m + pts)"
      if plain: "name \<notin> set object_prototype_names"
    proof -
      from player_score_Num[OF assms(2) plain] obtain m where
        m: "player_score g name = Num m" by blast
      from player_score_add[OF assms(2) plain m mp'] m show ?thesis by blast
    qed
    moreover have "\<forall>other. other \<noteq> name \<longrightarrow>
        mp_scores (onWordGuess word p g) other = mp_scores g other"
      unfolding mp' by (simp add: mp_write_other)
    ultimately show ?thesis using sc Named by simp
  qed
  with s pts show ?thesis by blast
qed

subsection \<open>The ledger and the scores stay well formed\<close>

lemma words_onWordGuess:
  "map (map fst) (answers (onWordGuess word p g)) = map (map fst) (answers g)"
proof (cases "checkWord g word")
  case None
  then show ?thesis by (simp add: onWordGuess_absent)
next
  case (Some a)
  then obtain i j c where a: "checkWord g word = Some (i, j, c)" by (cases a) auto
  show ?thesis
  proof (cases "truthy c")
    case True
    with a show ?thesis by (simp add: onWordGuess_claimed)
  next
    case False
    from checkGroups_Some[OF a[unfolded checkWord_def]]
    have ij: "i < length (answers g)" "j < length (answers g ! i)"
      "fst (answers g ! i ! j) = word" by simp_all
    then have "(map fst (answers g ! i))[j := word] = map fst (answers g ! i)"
      by (simp add: list_update_same_conv)
    then have "map fst ((answers g ! i)[j := (word, Some p)]) = map (map fst) (answers g) ! i"
      using ij(1) by (simp add: map_update)
    then have "(map (map fst) (answers g))[i := map fst ((answers g ! i)[j := (word, Some p)])]
                 = map (map fst) (answers g)"
      using ij(1) by (simp only: list_update_id)
    then show ?thesis
      unfolding answers_onWordGuess[OF a False] by (simp only: map_update)
  qed
qed

lemma ledger_ok_words:
  "ledger_ok g \<longleftrightarrow> (\<forall>w\<in>set (concat (map (map fst) (answers g))). length w \<in> {3, 4, 5, 6})"
  unfolding ledger_ok_def entries_def by (simp only: map_concat[symmetric] set_map) blast

lemma onWordGuess_ledger_ok: "ledger_ok g \<Longrightarrow> ledger_ok (onWordGuess word p g)"
  by (simp only: ledger_ok_words words_onWordGuess)

lemma createGame_ledger_ok:
  assumes "createGame dictionary pick rnd g = Inr g0"
  shows "ledger_ok g0"
proof -
  note f = createGame_pool[OF assms]
  from baseWord_picked[OF f(8), of pick] obtain bw where
    bw: "baseWord dictionary pick = split_chars bw" "length bw = 6" by blast
  have "length w \<in> {3, 4, 5, 6}"
    if "w \<in> set (concat (gamewords dictionary (split_chars bw)))" for w
  proof -
    from that obtain k where k: "k < 4" "w \<in> set (gamewords dictionary (split_chars bw) ! k)"
      by (auto simp: in_set_conv_nth[of _ "gamewords dictionary (split_chars bw)"] length_gamewords)
    then have L: "k + 3 \<in> {3, 4, 5, 6}" by auto
    from gamewords_group(3)[OF L bw(2), of dictionary] k(2) have "length w = k + 3" by simp
    with L show ?thesis by simp
  qed
  then show ?thesis
    unfolding ledger_ok_words f(7) bw(1) by (simp add: comp_def)
qed

lemma createGame_scores_ok:
  "createGame dictionary pick rnd g = Inr g0 \<Longrightarrow> scores_ok g \<Longrightarrow> scores_ok g0"
  by (simp add: scores_ok_def createGame_pool(5,6))

lemma onWordGuess_scores_ok:
  assumes "ledger_ok g" "scores_ok g"
  shows "scores_ok (onWordGuess word p g)"
proof (cases "checkWord g word")
  case None
  with assms show ?thesis by (simp add: onWordGuess_absent)
next
  case (Some a)
  then obtain i j c where a: "checkWord g word = Some (i, j, c)" by (cases a) auto
  show ?thesis
  proof (cases "truthy c \<or> gaveup g")
    case True
    with a assms(2) show ?thesis
      by (auto simp: onWordGuess_claimed scores_ok_def onWordGuess_gaveup)
  next
    case False
    from assms(2) obtain s where s: "score g = Num s" by (auto simp: scores_ok_def)
    from found_in_entries[OF a] assms(1) have "length word \<in> {3, 4, 5, 6}"
      unfolding ledger_ok_def by force
    from pointvalues_table[OF this] obtain pts where
      pts: "pointvalues (length word) = Num pts" by blast
    from False have f: "\<not> truthy c" "\<not> gaveup g" by simp_all
    note sc = onWordGuess_reveal_score[OF a f, of p, unfolded pts s]
    note mp = onWordGuess_reveal_mp_scores[OF a f, of p, unfolded pts]
    have "mp_scores (onWordGuess word p g) name = None
            \<or> (\<exists>m. mp_scores (onWordGuess word p g) name = Some (Num m))"
      if plain: "name \<notin> set object_prototype_names" for name
    proof -
      from assms(2) plain have old:
        "mp_scores g name = None \<or> (\<exists>m. mp_scores g name = Some (Num m))"
        by (simp add: scores_ok_def)
      show ?thesis
      proof (cases p)
        case Local
        with mp old show ?thesis by simp
      next
        case System
        with mp old show ?thesis by simp
      next
        case (Named claimer)
        show ?thesis
        proof (cases "claimer = name")
          case True
          with mp Named old show ?thesis
            by (auto simp: mp_read_plain[OF plain] mp_write_plain[OF plain])
        next
          case False
          with mp Named old show ?thesis
            by (simp add: mp_write_def)
        qed
      qed
    qed
    moreover from sc s have "\<exists>s'. score (onWordGuess word p g) = Num s'"
      by (cases "p = System") simp_all
    ultimately show ?thesis by (simp add: scores_ok_def)
  qed
qed

lemma onPlayerJoin_ok:
  "ledger_ok g \<Longrightarrow> ledger_ok (onPlayerJoin name g)"
  "scores_ok g \<Longrightarrow> scores_ok (onPlayerJoin name g)"
  by (auto simp: ledger_ok_def scores_ok_def entries_def onPlayerJoin_def
        callbacks_onPlayerJoin_def call_ui_def Let_def mp_write_def)

lemma onPlayerQuit_ok:
  "ledger_ok g \<Longrightarrow> ledger_ok (onPlayerQuit name g)"
  "scores_ok g \<Longrightarrow> scores_ok (onPlayerQuit name g)"
  by (auto simp: ledger_ok_def scores_ok_def entries_def onPlayerQuit_def call_ui_def Let_def)

lemma revealAll_ok:
  "ledger_ok g \<Longrightarrow> ledger_ok (revealAll g)"
  "scores_ok g \<Longrightarrow> scores_ok (revealAll g)"
  by (auto simp: ledger_ok_def scores_ok_def entries_def revealAll_def)

lemma call_ui_ok:
  "ledger_ok g \<Longrightarrow> ledger_ok (call_ui e g)"
  "scores_ok g \<Longrightarrow> scores_ok (call_ui e g)"
  by (auto simp: ledger_ok_def scores_ok_def entries_def call_ui_def)

lemma onServerMsg_ok:
  assumes "ledger_ok g" "scores_ok g"
  shows "ledger_ok (onServerMsg data g) \<and> scores_ok (onServerMsg data g)"
  using assms
  by (simp add: onServerMsg_def Let_def onWordGuess_ledger_ok onWordGuess_scores_ok
        onPlayerJoin_ok onPlayerQuit_ok revealAll_ok call_ui_ok)

lemma pool_calls_ok:
  "ledger_ok g \<Longrightarrow> ledger_ok (pool_step c g)"
  "scores_ok g \<Longrightarrow> scores_ok (pool_step c g)"
  by (cases c;
      auto simp: ledger_ok_def scores_ok_def entries_def enterChar_def backspaceChar_def
        avail_set_def call_ui_def Let_def)+

lemma scores_ok_loaded: "scores_ok loaded"
  by (simp add: scores_ok_def loaded_def)

lemma garden_game_ok: "ledger_ok garden_game" "scores_ok garden_game"
  using createGame_ledger_ok[OF createGame_garden]
    createGame_scores_ok[OF createGame_garden scores_ok_loaded] by simp_all

lemma garden_den: "checkWord garden_game ''den'' = Some (0, 0, None)"
  by (simp add: checkWord_def garden_game_eq loaded_def)

lemma garden_fresh:
  "\<not> gaveup garden_game" "score garden_game = Num 0" "playername garden_game = None"
  "mp_scores garden_game = Map.empty"
  by (simp_all add: garden_game_eq loaded_def)

lemma onWordGuess_points_garden:
  "score (onWordGuess ''den'' Local garden_game) = Num 90 \<and>
   mp_scores (onWordGuess ''den'' Local garden_game) = mp_scores garden_game \<and>
   score (onWordGuess ''den'' (Named ''bob'') garden_game) = Num 90 \<and>
   player_score (onWordGuess ''den'' (Named ''bob'') garden_game) ''bob'' = Num 90 \<and>
   score (onWordGuess ''den'' System garden_game) = Num 0"
proof -
  have t: "\<not> truthy None" by simp
  have bob: "''bob'' \<notin> set object_prototype_names"
    by (simp add: object_prototype_names_def)
  note inst = onWordGuess_points[OF garden_game_ok garden_den t garden_fresh(1)]
  from inst[of Local] have
    "score (onWordGuess ''den'' Local garden_game) = Num 90"
    "mp_scores (onWordGuess ''den'' Local garden_game) = mp_scores garden_game"
    by (auto simp: garden_fresh)
  moreover from inst[of "Named ''bob''"] bob have
    "score (onWordGuess ''den'' (Named ''bob'') garden_game) = Num 90"
    "player_score (onWordGuess ''den'' (Named ''bob'') garden_game) ''bob'' = Num 90"
    by (auto simp: garden_fresh player_score_def mp_read_plain[OF bob])
  moreover from inst[of System] have
    "score (onWordGuess ''den'' System garden_game) = Num 0"
    by (auto simp: garden_fresh)
  ultimately show ?thesis by blast
qed

text \<open>
  C4 fails in the script for a player named like a member of \<^verbatim>\<open>Object.prototype\<close>.
  In the scenario game the player named constructor claims den, which was not answered,
  and the game was not given up. The total score rises by the 90 points of the table.
  \<^verbatim>\<open>mp_scores["constructor"]\<close> read a function before the claim, which is truthy, so
  \<^verbatim>\<open>addPlayerScore\<close> adds 90 to it with \<^verbatim>\<open>+=\<close> and stores a string: the
  player's score has not risen by 90, it is no number.
\<close>

theorem onWordGuess_constructor_score:
  "checkWord garden_game ''den'' = Some (0, 0, None) \<and> \<not> gaveup garden_game \<and>
   score garden_game = Num 0 \<and>
   score (onWordGuess ''den'' (Named ''constructor'') garden_game) = Num 90 \<and>
   mp_read (mp_scores garden_game) ''constructor'' = Inherited \<and>
   mp_scores (onWordGuess ''den'' (Named ''constructor'') garden_game) ''constructor''
     = Some Text \<and>
   player_score (onWordGuess ''den'' (Named ''constructor'') garden_game) ''constructor''
     = Text \<and>
   player_score (onWordGuess ''den'' (Named ''constructor'') garden_game) ''constructor''
     \<noteq> Num 90"
proof -
  have t: "\<not> truthy None" by simp
  have r: "mp_read (mp_scores garden_game) ''constructor'' = Inherited"
    by (simp add: garden_fresh mp_read_def object_prototype_names_def)
  have sc: "score (onWordGuess ''den'' (Named ''constructor'') garden_game) = Num 90"
    using onWordGuess_reveal_score[OF garden_den t garden_fresh(1), of "Named ''constructor''"]
    by (simp add: garden_fresh)
  have mp: "mp_scores (onWordGuess ''den'' (Named ''constructor'') garden_game)
      = mp_write (mp_scores garden_game) ''constructor'' Text"
    using onWordGuess_reveal_mp_scores[OF garden_den t garden_fresh(1),
        of "Named ''constructor''"]
    by (simp add: r)
  then have own: "mp_scores (onWordGuess ''den'' (Named ''constructor'') garden_game)
      ''constructor'' = Some Text"
    by (simp add: mp_write_def)
  then have "player_score (onWordGuess ''den'' (Named ''constructor'') garden_game)
      ''constructor'' = Text"
    by (simp add: player_score_def mp_read_def)
  with garden_den garden_fresh(1,2) sc r own show ?thesis by simp
qed

subsection \<open>A word is claimed once\<close>

lemma onServerMsg_attempt_without_name:
  "onServerMsg '':attempt den'' g = onWordGuess ''den'' (Named []) g"
  by (simp add: onServerMsg_def split_limit_def Let_def)

lemma onServerMsg_attempt_named:
  "onServerMsg '':attempt den bob'' g = onWordGuess ''den'' (Named ''bob'') g"
  by (simp add: onServerMsg_def split_limit_def Let_def)

lemma falsy_claimant: "\<not> truthy (Some p) \<longleftrightarrow> p = Named []"
  by (cases p) simp_all

text \<open>
  C5 fails in the script for a first claimant with the empty name, and for no other
  (\<open>falsy_claimant\<close>). The message \<^verbatim>\<open>:attempt den\<close>, without a claimant, makes
  \<^verbatim>\<open>onServerMsg\<close> call \<^verbatim>\<open>onWordGuess("den", "")\<close>. In the scenario game that claim
  succeeds, stores the empty string as the claimant and scores 90 points. The test
  \<^verbatim>\<open>if (a[2])\<close> reads the stored empty string as not answered, so the next claim,
  from \<^verbatim>\<open>:attempt den bob\<close>, replaces the claimant by bob and scores another 90
  points.
\<close>

theorem claim_empty_name_reclaimed:
  "onServerMsg '':attempt den'' garden_game = onWordGuess ''den'' (Named []) garden_game \<and>
   checkWord garden_game ''den'' = Some (0, 0, None) \<and>
   checkWord (onWordGuess ''den'' (Named []) garden_game) ''den''
     = Some (0, 0, Some (Named [])) \<and>
   score (onWordGuess ''den'' (Named []) garden_game) = Num 90 \<and>
   onServerMsg '':attempt den bob'' (onWordGuess ''den'' (Named []) garden_game)
     = onWordGuess ''den'' (Named ''bob'') (onWordGuess ''den'' (Named []) garden_game) \<and>
   checkWord (onWordGuess ''den'' (Named ''bob'') (onWordGuess ''den'' (Named []) garden_game))
      ''den''
     = Some (0, 0, Some (Named ''bob'')) \<and>
   score (onWordGuess ''den'' (Named ''bob'') (onWordGuess ''den'' (Named []) garden_game))
     = Num 180"
  by (simp add: onServerMsg_attempt_without_name onServerMsg_attempt_named
        checkWord_def onWordGuess_def garden_game_eq loaded_def Let_def
        set_claimant_def call_ui_def addScore_def addPlayerScore_def
        mp_read_def mp_write_def object_prototype_names_def)

text \<open>
  What C5 says, for every first claimant but the player with the empty name. For every
  word \<open>w\<close> and claimants \<open>p1\<close>, \<open>p2\<close>: after \<^verbatim>\<open>onWordGuess(w, p1)\<close> has claimed
  \<open>w\<close>, its entry holds \<open>p1\<close>, a following \<^verbatim>\<open>onWordGuess(w, p2)\<close> changes nothing
  at all, and the entry still holds \<open>p1\<close> after any further sequence of claims. A
  claim on a word that is not in the ledger changes nothing at all.
\<close>

lemma claim_first_wins:
  "(checkWord g w = Some (i, j, c) \<and> \<not> truthy c \<and> truthy (Some p1) \<longrightarrow>
      checkWord (onWordGuess w p1 g) w = Some (i, j, Some p1) \<and>
      onWordGuess w p2 (onWordGuess w p1 g) = onWordGuess w p1 g \<and>
      (\<forall>ws. checkWord (guesses ws (onWordGuess w p1 g)) w = Some (i, j, Some p1)))
   \<and> (checkWord g w = None \<longrightarrow> onWordGuess w p g = g)"
proof (intro conjI impI)
  assume a: "checkWord g w = Some (i, j, c) \<and> \<not> truthy c \<and> truthy (Some p1)"
  then have first: "checkWord (onWordGuess w p1 g) w = Some (i, j, Some p1)"
    by (simp add: checkWord_onWordGuess_same)
  then show "checkWord (onWordGuess w p1 g) w = Some (i, j, Some p1)" .
  from first a show "onWordGuess w p2 (onWordGuess w p1 g) = onWordGuess w p1 g"
    by (simp add: onWordGuess_claimed)
  from first a show "\<forall>ws. checkWord (guesses ws (onWordGuess w p1 g)) w = Some (i, j, Some p1)"
    by (simp add: claimed_stays)
next
  assume "checkWord g w = None"
  then show "onWordGuess w p g = g" by (rule onWordGuess_absent)
qed

lemma claim_first_wins_garden:
  "checkWord garden_game ''den'' = Some (0, 0, None) \<and> \<not> truthy None \<and> truthy (Some Local) \<and>
   checkWord garden_game ''xyz'' = None \<and>
   checkWord (onWordGuess ''den'' Local garden_game) ''den'' = Some (0, 0, Some Local) \<and>
   onWordGuess ''den'' (Named ''bob'') (onWordGuess ''den'' Local garden_game)
     = onWordGuess ''den'' Local garden_game \<and>
   checkWord (guesses [(''dare'', Named ''bob''), (''den'', System)]
                (onWordGuess ''den'' Local garden_game)) ''den'' = Some (0, 0, Some Local) \<and>
   onWordGuess ''xyz'' Local garden_game = garden_game"
proof -
  have h: "checkWord garden_game ''den'' = Some (0, 0, None) \<and> \<not> truthy None \<and> truthy (Some Local)"
    by (simp add: garden_den)
  have n: "checkWord garden_game ''xyz'' = None"
    by (simp add: checkWord_def garden_game_eq loaded_def)
  from claim_first_wins[of garden_game "''den''" 0 0 None Local "Named ''bob''" Local] h
  have "checkWord (onWordGuess ''den'' Local garden_game) ''den'' = Some (0, 0, Some Local)"
    "onWordGuess ''den'' (Named ''bob'') (onWordGuess ''den'' Local garden_game)
       = onWordGuess ''den'' Local garden_game"
    "\<forall>ws. checkWord (guesses ws (onWordGuess ''den'' Local garden_game)) ''den''
       = Some (0, 0, Some Local)"
    by blast+
  moreover from claim_first_wins[of garden_game "''xyz''" 0 0 None Local Local Local] n
  have "onWordGuess ''xyz'' Local garden_game = garden_game" by blast
  ultimately show ?thesis using h n by blast
qed

subsection \<open>\<^verbatim>\<open>checkWord\<close> compares with \<^verbatim>\<open>===\<close>\<close>

lemma toLowerCase_DEN: "toLowerCase ''DEN'' = ''den''"
  by code_simp

text \<open>
  C6, as stated, fails: in the scenario game \<^verbatim>\<open>checkWord("den")\<close> finds the first
  entry of the first group and \<^verbatim>\<open>checkWord("DEN")\<close>, the same word in upper case,
  finds nothing.
\<close>

theorem checkWord_upper_case_counterexample:
  "toLowerCase ''DEN'' = ''den'' \<and>
   checkWord garden_game ''den'' = Some (0, 0, None) \<and>
   checkWord garden_game ''DEN'' = None"
  by (simp add: checkWord_def garden_game_eq loaded_def toLowerCase_DEN)

text \<open>
  C6, amended. \<^verbatim>\<open>checkWord(w)\<close> is an exact, case-sensitive match across all
  groups: it returns the group index, the position in the group and the claimant of the
  first entry whose word is \<open>w\<close> itself, and returns \<^verbatim>\<open>null\<close> if and only if no entry
  has the word \<open>w\<close>.
\<close>

theorem checkWord_exact_match:
  "(checkWord g w = None \<longleftrightarrow> w \<notin> fst ` set (entries g)) \<and>
   (\<forall>i j c. checkWord g w = Some (i, j, c) \<longrightarrow>
      i < length (answers g) \<and> j < length (answers g ! i) \<and> answers g ! i ! j = (w, c) \<and>
      (\<forall>i'<i. w \<notin> fst ` set (answers g ! i')) \<and>
      (\<forall>j'<j. fst (answers g ! i ! j') \<noteq> w))"
  unfolding checkWord_def entries_def
  using checkGroups_None[of w "answers g"] checkGroups_Some[of w "answers g"]
  by blast

theorem checkWord_exact_match_witness:
  "checkWord garden_game ''rang'' = Some (1, 1, None) \<and>
   answers garden_game ! 1 ! 1 = (''rang'', None) \<and>
   ''rang'' \<notin> fst ` set (answers garden_game ! 0) \<and>
   fst (answers garden_game ! 1 ! 0) \<noteq> ''rang'' \<and>
   checkWord garden_game ''RANG'' = None \<and>
   ''RANG'' \<notin> fst ` set (entries garden_game)"
proof -
  have r: "checkWord garden_game ''rang'' = Some (1, 1, None)"
    by (simp add: checkWord_def garden_game_eq loaded_def)
  have n: "checkWord garden_game ''RANG'' = None"
    by (simp add: checkWord_def garden_game_eq loaded_def)
  from checkWord_exact_match[of garden_game "''rang''"] r
  have "answers garden_game ! 1 ! 1 = (''rang'', None)"
    "\<forall>i'<1. ''rang'' \<notin> fst ` set (answers garden_game ! i')"
    "\<forall>j'<1. fst (answers garden_game ! 1 ! j') \<noteq> ''rang''"
    by blast+
  then have "answers garden_game ! 1 ! 1 = (''rang'', None)"
    "''rang'' \<notin> fst ` set (answers garden_game ! 0)"
    "fst (answers garden_game ! 1 ! 0) \<noteq> ''rang''"
    by simp_all
  moreover from checkWord_exact_match[of garden_game "''RANG''"] n
  have "''RANG'' \<notin> fst ` set (entries garden_game)" by blast
  ultimately show ?thesis using r n by blast
qed

subsection \<open>Giving up outside a multiplayer game\<close>

lemma giveUp_local_eq:
  "playername g = None \<Longrightarrow>
     giveUp True g = (revealAll (call_ui (ShowMpMenu (- 1)) g))\<lparr>gaveup := True\<rparr>"
  by (simp add: giveUp_def Let_def)

lemma revealAll_events:
  assumes "i < length (answers g)" "j < length (answers g ! i)"
  shows "RevealWord (fst (answers g ! i ! j)) i j System
           \<in> set (concat (map (\<lambda>i. map (\<lambda>j. RevealWord (fst (answers g ! i ! j)) i j System)
                                     [0..<length (answers g ! i)])
                             [0..<length (answers g)]))"
proof -
  let ?row = "\<lambda>i. map (\<lambda>j. RevealWord (fst (answers g ! i ! j)) i j System)
                      [0..<length (answers g ! i)]"
  from assms(2) have "j \<in> set [0..<length (answers g ! i)]" by simp
  then have "RevealWord (fst (answers g ! i ! j)) i j System \<in> set (?row i)"
    by (simp only: set_map) (rule imageI)
  moreover from assms(1) have "i \<in> set [0..<length (answers g)]" by simp
  then have "?row i \<in> set (map ?row [0..<length (answers g)])"
    by (simp only: set_map) (rule imageI)
  ultimately show ?thesis
    unfolding set_concat by (rule UN_I[rotated])
qed

text \<open>
  C3, as stated, fails: in the scenario game, outside any multiplayer game, the entry
  den is not answered before \<^verbatim>\<open>giveUp(true)\<close> and is still not answered after it;
  the call has only notified the UI.
\<close>

theorem giveUp_marks_nothing_counterexample:
  "playername garden_game = None \<and>
   checkWord garden_game ''den'' = Some (0, 0, None) \<and>
   checkWord (giveUp True garden_game) ''den'' = Some (0, 0, None) \<and>
   checkWord (giveUp True garden_game) ''den'' \<noteq> Some (0, 0, Some System)"
  by (simp add: giveUp_def revealAll_def call_ui_def Let_def checkWord_def garden_game_eq
        loaded_def)

text \<open>
  C3, amended. After \<^verbatim>\<open>giveUp(true)\<close> outside a multiplayer game, the call has
  emitted a reveal notification with the system claimant for every entry of the ledger,
  answered or not; the entries of the ledger are as they were before the call; the
  total score and the players' scores are as they were before the call; and after any
  later sequence of claims the scores are still as they were before the call.
\<close>

theorem giveUp_local:
  assumes "playername g = None"
  shows "(\<exists>events. ui (giveUp True g) = ui g @ events \<and>
            (\<forall>i<length (answers g). \<forall>j<length (answers g ! i).
                RevealWord (fst (answers g ! i ! j)) i j System \<in> set events))
         \<and> answers (giveUp True g) = answers g
         \<and> score (giveUp True g) = score g
         \<and> mp_scores (giveUp True g) = mp_scores g
         \<and> gaveup (giveUp True g)
         \<and> (\<forall>ws. score (guesses ws (giveUp True g)) = score g
                 \<and> mp_scores (guesses ws (giveUp True g)) = mp_scores g)"
proof -
  note eq = giveUp_local_eq[OF assms]
  let ?reveals = "concat (map (\<lambda>i. map (\<lambda>j. RevealWord (fst (answers g ! i ! j)) i j System)
                                     [0..<length (answers g ! i)])
                             [0..<length (answers g)])"
  have "ui (giveUp True g) = ui g @ (ShowMpMenu (- 1) # ?reveals)"
    unfolding eq by (simp add: revealAll_def call_ui_def)
  moreover have "\<forall>i<length (answers g). \<forall>j<length (answers g ! i).
      RevealWord (fst (answers g ! i ! j)) i j System \<in> set (ShowMpMenu (- 1) # ?reveals)"
    using revealAll_events[of _ g] by simp
  ultimately have ev: "\<exists>events. ui (giveUp True g) = ui g @ events \<and>
            (\<forall>i<length (answers g). \<forall>j<length (answers g ! i).
                RevealWord (fst (answers g ! i ! j)) i j System \<in> set events)"
    by blast
  have same: "answers (giveUp True g) = answers g" "score (giveUp True g) = score g"
    "mp_scores (giveUp True g) = mp_scores g" "gaveup (giveUp True g)"
    unfolding eq by (simp_all add: revealAll_def call_ui_def)
  from guesses_gaveup[OF same(4)] same(2,3)
  have "\<forall>ws. score (guesses ws (giveUp True g)) = score g
                 \<and> mp_scores (guesses ws (giveUp True g)) = mp_scores g"
    by simp
  with ev same show ?thesis by blast
qed

theorem giveUp_local_witness:
  "playername garden_game = None \<and>
   answers (giveUp True garden_game) = answers garden_game \<and>
   score (giveUp True garden_game) = score garden_game \<and>
   gaveup (giveUp True garden_game) \<and>
   score (guesses [(''den'', Local), (''dare'', Named ''bob'')] (giveUp True garden_game))
     = score garden_game \<and>
   RevealWord ''rang'' 1 1 System \<in> set (ui (giveUp True garden_game))"
proof -
  note inst = giveUp_local[OF garden_fresh(3)]
  from inst obtain events where
    ev: "ui (giveUp True garden_game) = ui garden_game @ events"
        "\<forall>i<length (answers garden_game). \<forall>j<length (answers garden_game ! i).
           RevealWord (fst (answers garden_game ! i ! j)) i j System \<in> set events"
    by blast
  have "1 < length (answers garden_game)" "1 < length (answers garden_game ! 1)"
    "fst (answers garden_game ! 1 ! 1) = ''rang''"
    by (simp_all add: garden_game_eq loaded_def)
  with ev(2) have "RevealWord ''rang'' 1 1 System \<in> set events" by metis
  with ev(1) have "RevealWord ''rang'' 1 1 System \<in> set (ui (giveUp True garden_game))"
    by simp
  with inst garden_fresh(3) show ?thesis by blast
qed

section \<open>Properties of the multiplayer handlers\<close>

subsection \<open>The roster and the handshake of a joiner\<close>

lemma roster_loop_spec: "roster_loop tokens g = roster_spec tokens g"
  unfolding roster_spec_def
  by (induction tokens arbitrary: g) (simp_all add: endsWith_underscore_def)

lemma join_first_if_name_ack:
  assumes "state g = 1" "data \<noteq> '':badname''" "data \<noteq> '':taken''"
  shows "join_first_if data g = g\<lparr>state := 2\<rparr>"
  using assms by (simp add: join_first_if_def)

lemma join_first_if_roster: "state g = 2 \<Longrightarrow> join_first_if data g = g"
  by (simp add: join_first_if_def)

lemma join_first_if_word_list: "state g = 3 \<Longrightarrow> join_first_if data g = g"
  by (simp add: join_first_if_def)

lemma join_onmessage_roster:
  "state g = 2 \<Longrightarrow>
     join_onmessage gamename data pick rnd g = Inr ((roster_loop (split_space data) g)\<lparr>state := 3\<rparr>)"
  by (simp add: join_onmessage_def join_first_if_roster Let_def)

text \<open>
  C9. In state 1 of the handler of \<^verbatim>\<open>joinGame\<close> (the name was sent), a message
  other than \<^verbatim>\<open>:badname\<close> and \<^verbatim>\<open>:taken\<close> sets the state to 2, and the same call of
  the handler treats that message as the roster, exactly as a message arriving in state
  2 is treated, and leaves the state at 3. In the roster every token between spaces that
  ends in the marker is a join followed at once by a quit of the name without the
  marker, and every other token is a join.
\<close>

theorem join_name_ack_falls_through:
  assumes "state g = 1" "data \<noteq> '':badname''" "data \<noteq> '':taken''"
  shows "join_onmessage gamename data pick rnd g
           = Inr ((roster_spec (split_space data) (g\<lparr>state := 2\<rparr>))\<lparr>state := 3\<rparr>)
         \<and> join_onmessage gamename data pick rnd g
           = join_onmessage gamename data pick rnd (g\<lparr>state := 2\<rparr>)"
proof -
  have "join_onmessage gamename data pick rnd g
          = Inr ((roster_loop (split_space data) (g\<lparr>state := 2\<rparr>))\<lparr>state := 3\<rparr>)"
    unfolding join_onmessage_def join_first_if_name_ack[OF assms] by (simp add: Let_def)
  moreover have "join_onmessage gamename data pick rnd (g\<lparr>state := 2\<rparr>)
          = Inr ((roster_loop (split_space data) (g\<lparr>state := 2\<rparr>))\<lparr>state := 3\<rparr>)"
    by (rule join_onmessage_roster) simp
  ultimately show ?thesis by (simp add: roster_loop_spec)
qed

lemma joiner_after_ok_eq:
  "joiner_after_ok =
     loaded\<lparr>sock := True, state := 1, playername := Some ''carol'', sent := [''carol'']\<rparr>"
  by (simp add: joiner_after_ok_def join_onmessage_def join_first_if_def joinGame_def
        loaded_def sendName_def sock_send_def)

lemma split_alice_bob: "split_space ''alice bob_'' = [''alice'', ''bob_'']"
  by simp

theorem join_name_ack_falls_through_witness:
  "state joiner_after_ok = 1 \<and> ''alice bob_'' \<noteq> '':badname'' \<and> ''alice bob_'' \<noteq> '':taken'' \<and>
   join_onmessage ''lobby'' ''alice bob_'' 0 id joiner_after_ok
     = Inr (joiner_after_ok\<lparr>state := 3, players := [''alice''],
              ui := [UIOnPlayerJoin ''alice'', UIOnPlayerJoin ''bob'', UIOnPlayerQuit ''bob'']\<rparr>)"
proof -
  have h: "state joiner_after_ok = 1" "''alice bob_'' \<noteq> '':badname''"
    "''alice bob_'' \<noteq> '':taken''"
    by (simp_all add: joiner_after_ok_eq)
  have "(roster_spec (split_space ''alice bob_'') (joiner_after_ok\<lparr>state := 2\<rparr>))\<lparr>state := 3\<rparr>
      = joiner_after_ok\<lparr>state := 3, players := [''alice''],
              ui := [UIOnPlayerJoin ''alice'', UIOnPlayerJoin ''bob'', UIOnPlayerQuit ''bob'']\<rparr>"
    unfolding split_alice_bob
    by (simp add: roster_spec_def onPlayerJoin_def onPlayerQuit_def callbacks_onPlayerJoin_def
          call_ui_def splice1_def Let_def joiner_after_ok_eq loaded_def)
  with join_name_ack_falls_through[OF h, of "''lobby''" 0 id] h show ?thesis
    by simp
qed

subsection \<open>The local player's own join\<close>

lemma mp_scores_callbacks_onPlayerJoin:
  "mp_scores (callbacks_onPlayerJoin name g)
     = (if playername g = Some name then mp_write (mp_scores g) name (score g)
        else mp_scores g)"
  by (auto simp: callbacks_onPlayerJoin_def call_ui_def Let_def)

text \<open>
  What C10 says, for every name but \<^verbatim>\<open>__proto__\<close>. When a join of the local player's
  own name is processed, that player's entry of \<^verbatim>\<open>mp_scores\<close> becomes the total
  score, so the points earned before hosting carry over; a join of any other name leaves
  \<^verbatim>\<open>mp_scores\<close> as it was. This holds for the callback itself, for
  \<^verbatim>\<open>onPlayerJoin\<close> of \<^verbatim>\<open>MULTIPLAYER\<close> that calls it, and for the join of the host
  that the reply to \<^verbatim>\<open>hostGame\<close> triggers. No join changes the total score.
\<close>

lemma own_join_copies_score:
  "(name \<noteq> ''__proto__'' \<longrightarrow>
      mp_scores (callbacks_onPlayerJoin name g)
        = (if playername g = Some name then (mp_scores g)(name \<mapsto> score g) else mp_scores g)
      \<and> mp_scores (host_onmessage name data (hostGame name g)) = (mp_scores g)(name \<mapsto> score g)
      \<and> mp_read (mp_scores (host_onmessage name data (hostGame name g))) name = score g)
   \<and> (playername g \<noteq> Some name \<longrightarrow> mp_scores (callbacks_onPlayerJoin name g) = mp_scores g)
   \<and> mp_scores (onPlayerJoin name g) = mp_scores (callbacks_onPlayerJoin name g)
   \<and> score (onPlayerJoin name g) = score g"
  by (auto simp: mp_scores_callbacks_onPlayerJoin onPlayerJoin_def host_onmessage_def
        hostGame_def callbacks_onPlayerJoin_def call_ui_def Let_def mp_write_def mp_read_def)

lemma garden_den_found_score: "score garden_den_found = Num 90"
  "mp_scores garden_den_found = Map.empty"
  by (simp_all add: garden_den_found_def onWordGuess_def checkWord_def garden_game_eq
        loaded_def Let_def set_claimant_def call_ui_def addScore_def)

lemma own_join_copies_score_garden:
  "playername (hostGame ''ann'' garden_den_found) = Some ''ann'' \<and>
   mp_scores (onPlayerJoin ''ann'' (hostGame ''ann'' garden_den_found)) ''ann'' = Some (Num 90) \<and>
   mp_scores (onPlayerJoin ''bob'' (hostGame ''ann'' garden_den_found))
     = mp_scores (hostGame ''ann'' garden_den_found) \<and>
   mp_scores garden_hosted ''ann'' = Some (Num 90) \<and>
   player_score garden_hosted ''ann'' = Num 90 \<and>
   mp_scores garden_hosted ''bob'' = None"
proof -
  have p: "playername (hostGame ''ann'' garden_den_found) = Some ''ann''"
    "score (hostGame ''ann'' garden_den_found) = Num 90"
    "mp_scores (hostGame ''ann'' garden_den_found) = Map.empty"
    by (simp_all add: hostGame_def garden_den_found_score)
  from own_join_copies_score[of "''ann''" "hostGame ''ann'' garden_den_found"] p
  have "mp_scores (onPlayerJoin ''ann'' (hostGame ''ann'' garden_den_found)) ''ann''
          = Some (Num 90)"
    by simp
  moreover from own_join_copies_score[of "''bob''" "hostGame ''ann'' garden_den_found"] p
  have "mp_scores (onPlayerJoin ''bob'' (hostGame ''ann'' garden_den_found))
     = mp_scores (hostGame ''ann'' garden_den_found)"
    by simp
  moreover from own_join_copies_score[of "''ann''" garden_den_found "''7''"]
  have "mp_scores garden_hosted ''ann'' = Some (Num 90)"
    "player_score garden_hosted ''ann'' = Num 90"
    "mp_scores garden_hosted ''bob'' = None"
    by (simp_all add: garden_hosted_def garden_den_found_score player_score_def mp_read_def)
  ultimately show ?thesis using p(1) by blast
qed

text \<open>
  C10 fails in the script for a local player named \<^verbatim>\<open>__proto__\<close>. The player has
  found den alone, for 90 points, and then hosts under that name. When the reply of the
  server arrives, the join of the player's own name is processed and runs
  \<^verbatim>\<open>mp_scores[name] = score\<close>, but an assignment of a number to \<^verbatim>\<open>__proto__\<close>
  does nothing: \<^verbatim>\<open>mp_scores\<close> has no entry afterwards, and what
  \<^verbatim>\<open>mp_scores[name]\<close> reads is the prototype object, not the total score.
\<close>

theorem own_join_proto_ignored:
  "playername (hostGame ''__proto__'' garden_den_found) = Some ''__proto__'' \<and>
   score (hostGame ''__proto__'' garden_den_found) = Num 90 \<and>
   mp_scores (onPlayerJoin ''__proto__'' (hostGame ''__proto__'' garden_den_found))
     ''__proto__'' = None \<and>
   mp_scores (host_onmessage ''__proto__'' ''7'' (hostGame ''__proto__'' garden_den_found))
     = Map.empty \<and>
   mp_read (mp_scores (host_onmessage ''__proto__'' ''7''
                         (hostGame ''__proto__'' garden_den_found))) ''__proto__''
     = Inherited \<and>
   mp_read (mp_scores (host_onmessage ''__proto__'' ''7''
                         (hostGame ''__proto__'' garden_den_found))) ''__proto__''
     \<noteq> score (hostGame ''__proto__'' garden_den_found)"
  by (simp add: host_onmessage_def onPlayerJoin_def callbacks_onPlayerJoin_def hostGame_def
        call_ui_def Let_def mp_write_def mp_read_def garden_den_found_score)

subsection \<open>The word list a joiner receives\<close>

lemma join_onmessage_word_list:
  assumes "state g = 3"
  shows "join_onmessage gamename data pick rnd g =
           (case createGame (split_space data) pick rnd g of
              Inl e \<Rightarrow> Inl e
            | Inr gc \<Rightarrow> Inr ((call_ui (ShowMpMenu 2) gc)\<lparr>lobby := Some gamename, steady := True\<rparr>))"
proof -
  from assms have "state (join_first_if data g) = 3" "join_first_if data g = g"
    by (simp_all add: join_first_if_word_list)
  then show ?thesis
    by (simp add: join_onmessage_def makeGame_def Let_def split: sum.splits)
qed

lemma join_onmessage_no_six_letters:
  "state g = 3 \<Longrightarrow> possibilities (split_space data) = [] \<Longrightarrow>
     join_onmessage gamename data pick rnd g = Inl TypeError"
  by (simp add: join_onmessage_word_list createGame_def)

lemma joiner_after_roster_eq:
  "joiner_after_roster = joiner_after_ok\<lparr>state := 3, players := [''alice''],
              ui := [UIOnPlayerJoin ''alice'', UIOnPlayerJoin ''bob'', UIOnPlayerQuit ''bob'']\<rparr>"
proof -
  have "join_onmessage ''lobby'' ''alice bob_'' 0 id joiner_after_ok
     = Inr ((roster_loop (split_space ''alice bob_'') (joiner_after_ok\<lparr>state := 2\<rparr>))\<lparr>state := 3\<rparr>)"
    by (simp add: join_onmessage_def join_first_if_def joiner_after_ok_eq Let_def
          del: split_space.simps)
  then show ?thesis
    unfolding joiner_after_roster_def split_alice_bob
    by (simp add: onPlayerJoin_def onPlayerQuit_def callbacks_onPlayerJoin_def
          call_ui_def splice1_def Let_def joiner_after_ok_eq loaded_def endsWith_underscore_def)
qed

lemma split_word_list: "split_space ''den dare_ garden'' = [''den'', ''dare_'', ''garden'']"
  by simp

lemma lowered_word_list:
  "map toLowerCase [''den'', ''dare_'', ''garden''] = [''den'', ''dare_'', ''garden'']"
  by code_simp

lemma possibilities_word_list: "possibilities [''den'', ''dare_'', ''garden''] = [''garden'']"
  unfolding possibilities_def lowered_def lowered_word_list by simp

lemma gamewords_word_list:
  "gamewords [''den'', ''dare_'', ''garden''] (split_chars ''garden'') =
     [[''den''], [], [], [''garden'']]"
proof (rule gamewords_eqI)
  fix L :: nat assume "L \<in> {3, 4, 5, 6}"
  then consider "L = 3" | "L = 4" | "L = 5" | "L = 6" by auto
  then show "sorted ([[''den''], [], [], [''garden'']] ! (L - 3)) \<and>
           distinct ([[''den''], [], [], [''garden'']] ! (L - 3)) \<and>
           set ([[''den''], [], [], [''garden'']] ! (L - 3)) =
             {w \<in> set (map toLowerCase [''den'', ''dare_'', ''garden'']).
                length w = L \<and> mset w \<subseteq># mset ''garden''}"
    unfolding lowered_word_list
    by cases (auto simp: insert_subset_eq_iff)
qed simp_all

lemma joiner_joined_answers:
  "join_onmessage ''lobby'' ''den dare_ garden'' 0 id joiner_after_roster = Inr joiner_joined"
  "answers joiner_joined = [[(''den'', None)], [], [], [(''garden'', None)]]"
proof -
  have st: "state joiner_after_roster = 3" by (simp add: joiner_after_roster_eq)
  have base: "baseWord [''den'', ''dare_'', ''garden''] 0 = split_chars ''garden''"
    by (simp add: baseWord_def possibilities_word_list)
  have ne: "possibilities [''den'', ''dare_'', ''garden''] \<noteq> []"
    by (simp add: possibilities_word_list)
  from createGame_answers[OF ne, of 0 id joiner_after_roster] obtain gc where
    gc: "createGame [''den'', ''dare_'', ''garden''] 0 id joiner_after_roster = Inr gc"
        "answers gc = [[(''den'', None)], [], [], [(''garden'', None)]]"
    unfolding base gamewords_word_list by auto
  have res: "join_onmessage ''lobby'' ''den dare_ garden'' 0 id joiner_after_roster
      = Inr ((call_ui (ShowMpMenu 2) gc)\<lparr>lobby := Some ''lobby'', steady := True\<rparr>)"
    unfolding join_onmessage_word_list[OF st] split_word_list gc(1) by simp
  then show "join_onmessage ''lobby'' ''den dare_ garden'' 0 id joiner_after_roster
      = Inr joiner_joined"
    unfolding joiner_joined_def by simp
  from res show "answers joiner_joined = [[(''den'', None)], [], [], [(''garden'', None)]]"
    unfolding joiner_joined_def by (simp add: call_ui_def gc(2))
qed

text \<open>
  C2, as stated, fails. The joiner of the handshake scenario receives the word list
  \<^verbatim>\<open>den dare_ garden\<close> in state 3. The list goes to \<^verbatim>\<open>createGame\<close> as a
  dictionary: garden is picked as the base word, the token \<^verbatim>\<open>dare_\<close> is not formable
  from its letters, and the ledger holds den and garden only. The listed word dare is
  not in the ledger, with or without its marker, and no entry is recorded as claimed.
\<close>

theorem joiner_snapshot_counterexample:
  "state joiner_after_roster = 3 \<and>
   join_onmessage ''lobby'' ''den dare_ garden'' 0 id joiner_after_roster = Inr joiner_joined \<and>
   answers joiner_joined = [[(''den'', None)], [], [], [(''garden'', None)]] \<and>
   checkWord joiner_joined ''dare'' = None \<and>
   checkWord joiner_joined ''dare_'' = None"
proof -
  have "state joiner_after_roster = 3" by (simp add: joiner_after_roster_eq)
  moreover have "checkWord joiner_joined ''dare'' = None" "checkWord joiner_joined ''dare_'' = None"
    by (simp_all add: checkWord_def joiner_joined_answers(2))
  ultimately show ?thesis
    using joiner_joined_answers by blast
qed

text \<open>
  C2, amended. For every word list received by a joiner in state 3 that holds a token
  of six characters, the handler returns and the ledger of the joiner is the one that
  the Word Set Generator, \<^verbatim>\<open>createGame\<close>, derives with the tokens of the list as its
  dictionary: the same groups of words as \<^verbatim>\<open>createGame\<close> on these tokens gives, so
  that the group of each length \<open>L\<close> from 3 to 6 is sorted, has no duplicate, and holds
  exactly the lower-case forms \<^verbatim>\<open>toLowerCase\<close> of the tokens that have \<open>L\<close>
  characters and are formable from the letters of the base word; no word of a group
  holds a capital letter; and the base word is the lower-case form, of six characters,
  of one of the tokens. The handler then is \<^verbatim>\<open>onServerMsg\<close>.
\<close>

theorem joiner_ledger_rederived:
  assumes "state g = 3" "possibilities (split_space data) \<noteq> []"
  shows "\<exists>g' gc. join_onmessage gamename data pick rnd g = Inr g' \<and>
           createGame (split_space data) pick rnd g = Inr gc \<and>
           steady g' \<and> lobby g' = Some gamename \<and>
           length (answers g') = 4 \<and>
           concat (baseWord (split_space data) pick) \<in> set (map toLowerCase (split_space data)) \<and>
           length (concat (baseWord (split_space data) pick)) = 6 \<and>
           (\<forall>k. group_words g' k = group_words gc k) \<and>
           (\<forall>L\<in>{3, 4, 5, 6}.
              sorted (group_words g' (L - 3)) \<and> distinct (group_words g' (L - 3)) \<and>
              (\<forall>w\<in>set (group_words g' (L - 3)). \<forall>c\<in>set w. \<not> upper_case c) \<and>
              set (group_words g' (L - 3))
                = {w \<in> set (map toLowerCase (split_space data)).
                     length w = L \<and>
                     mset w \<subseteq># mset (concat (baseWord (split_space data) pick))})"
proof -
  let ?d = "split_space data"
  from createGame_answers[OF assms(2), of pick rnd g] obtain gc where
    gc: "createGame ?d pick rnd g = Inr gc"
        "answers gc = map (\<lambda>a. map (\<lambda>b. (b, None)) a) (gamewords ?d (baseWord ?d pick))"
    by blast
  define g' where "g' = (call_ui (ShowMpMenu 2) gc)\<lparr>lobby := Some gamename, steady := True\<rparr>"
  have res: "join_onmessage gamename data pick rnd g = Inr g'"
    unfolding join_onmessage_word_list[OF assms(1)] gc(1) g'_def by simp
  have ans: "answers g' = answers gc" and st: "steady g'" "lobby g' = Some gamename"
    unfolding g'_def by (simp_all add: call_ui_def)
  from baseWord_picked[OF assms(2), of pick] obtain bw where
    bw: "baseWord ?d pick = split_chars bw" "length bw = 6"
        "bw \<in> set (map toLowerCase ?d)" by blast
  have grp: "group_words g' (L - 3) = gamewords ?d (split_chars bw) ! (L - 3)"
    if "L \<in> {3, 4, 5, 6}" for L
  proof -
    from that have "L - 3 < length (gamewords ?d (split_chars bw))"
      by (auto simp: length_gamewords)
    then show ?thesis
      unfolding group_words_def ans gc(2) bw(1) by (simp add: comp_def)
  qed
  have groups: "\<forall>L\<in>{3, 4, 5, 6}.
              sorted (group_words g' (L - 3)) \<and> distinct (group_words g' (L - 3)) \<and>
              (\<forall>w\<in>set (group_words g' (L - 3)). \<forall>c\<in>set w. \<not> upper_case c) \<and>
              set (group_words g' (L - 3))
                = {w \<in> set (map toLowerCase ?d). length w = L \<and> mset w \<subseteq># mset bw}"
  proof
    fix L :: nat assume L: "L \<in> {3, 4, 5, 6}"
    have nu: "\<forall>w\<in>set (gamewords ?d (split_chars bw) ! (L - 3)). \<forall>c\<in>set w. \<not> upper_case c"
    proof
      fix w assume "w \<in> set (gamewords ?d (split_chars bw) ! (L - 3))"
      with gamewords_group(3)[OF L bw(2), of ?d] have "w \<in> set (map toLowerCase ?d)"
        by blast
      then show "\<forall>c\<in>set w. \<not> upper_case c" by (rule lowered_word_no_upper)
    qed
    show "sorted (group_words g' (L - 3)) \<and> distinct (group_words g' (L - 3)) \<and>
              (\<forall>w\<in>set (group_words g' (L - 3)). \<forall>c\<in>set w. \<not> upper_case c) \<and>
              set (group_words g' (L - 3))
                = {w \<in> set (map toLowerCase ?d). length w = L \<and> mset w \<subseteq># mset bw}"
      unfolding grp[OF L]
      by (intro conjI gamewords_group(2)[OF L bw(2)] gamewords_group(1)[OF L bw(2)] nu
          set_gamewords_group[OF L bw(2)])
  qed
  have len: "length (answers g') = 4"
    unfolding ans gc(2) by (simp add: length_gamewords)
  have same: "\<forall>k. group_words g' k = group_words gc k"
    by (simp add: group_words_def ans)
  have cb: "concat (baseWord ?d pick) = bw"
    unfolding bw(1) by (rule concat_split_chars)
  show ?thesis
    unfolding cb
    apply (rule exI[of _ g'])
    apply (rule exI[of _ gc])
    apply (intro conjI)
            apply (rule res)
           apply (rule gc(1))
          apply (rule st(1))
         apply (rule st(2))
        apply (rule len)
       apply (rule bw(3))
      apply (rule bw(2))
     apply (rule same)
    apply (rule groups)
    done
qed

lemma split_capitals: "split_space ''Den dare_ GARDEN'' = [''Den'', ''dare_'', ''GARDEN'']"
  by simp

lemma lowered_capitals:
  "map toLowerCase [''Den'', ''dare_'', ''GARDEN''] = [''den'', ''dare_'', ''garden'']"
  by code_simp

lemma possibilities_capitals: "possibilities [''Den'', ''dare_'', ''GARDEN''] = [''garden'']"
  unfolding possibilities_def lowered_def lowered_capitals by simp

lemma gamewords_capitals:
  "gamewords [''Den'', ''dare_'', ''GARDEN''] (split_chars ''garden'') =
     [[''den''], [], [], [''garden'']]"
  using gamewords_word_list
  unfolding gamewords_def lowered_def lowered_capitals lowered_word_list .

lemma joiner_joined_capitals_answers:
  "join_onmessage ''lobby'' ''Den dare_ GARDEN'' 0 id joiner_after_roster
     = Inr joiner_joined_capitals"
  "answers joiner_joined_capitals = [[(''den'', None)], [], [], [(''garden'', None)]]"
proof -
  have st: "state joiner_after_roster = 3" by (simp add: joiner_after_roster_eq)
  have base: "baseWord [''Den'', ''dare_'', ''GARDEN''] 0 = split_chars ''garden''"
    by (simp add: baseWord_def possibilities_capitals)
  have ne: "possibilities [''Den'', ''dare_'', ''GARDEN''] \<noteq> []"
    by (simp add: possibilities_capitals)
  from createGame_answers[OF ne, of 0 id joiner_after_roster] obtain gc where
    gc: "createGame [''Den'', ''dare_'', ''GARDEN''] 0 id joiner_after_roster = Inr gc"
        "answers gc = [[(''den'', None)], [], [], [(''garden'', None)]]"
    unfolding base gamewords_capitals by auto
  have res: "join_onmessage ''lobby'' ''Den dare_ GARDEN'' 0 id joiner_after_roster
      = Inr ((call_ui (ShowMpMenu 2) gc)\<lparr>lobby := Some ''lobby'', steady := True\<rparr>)"
    unfolding join_onmessage_word_list[OF st] split_capitals gc(1) by simp
  then show "join_onmessage ''lobby'' ''Den dare_ GARDEN'' 0 id joiner_after_roster
      = Inr joiner_joined_capitals"
    unfolding joiner_joined_capitals_def by simp
  from res show "answers joiner_joined_capitals
      = [[(''den'', None)], [], [], [(''garden'', None)]]"
    unfolding joiner_joined_capitals_def by (simp add: call_ui_def gc(2))
qed

theorem joiner_ledger_rederived_witness:
  "state joiner_after_roster = 3 \<and> possibilities (split_space ''Den dare_ GARDEN'') \<noteq> [] \<and>
   join_onmessage ''lobby'' ''Den dare_ GARDEN'' 0 id joiner_after_roster
     = Inr joiner_joined_capitals \<and>
   steady joiner_joined_capitals \<and> lobby joiner_joined_capitals = Some ''lobby'' \<and>
   length (answers joiner_joined_capitals) = 4 \<and>
   concat (baseWord (split_space ''Den dare_ GARDEN'') 0) = ''garden'' \<and>
   ''garden'' \<in> set (map toLowerCase (split_space ''Den dare_ GARDEN'')) \<and>
   ''garden'' \<notin> set (split_space ''Den dare_ GARDEN'') \<and>
   group_words joiner_joined_capitals 0 = [''den''] \<and>
   sorted (group_words joiner_joined_capitals 0) \<and>
   distinct (group_words joiner_joined_capitals 0) \<and>
   \<not> upper_case CHR ''d'' \<and>
   set (group_words joiner_joined_capitals 0)
     = {w \<in> set (map toLowerCase (split_space ''Den dare_ GARDEN'')).
          length w = 3 \<and> mset w \<subseteq># mset ''garden''}"
proof -
  have st: "state joiner_after_roster = 3" by (simp add: joiner_after_roster_eq)
  have ne: "possibilities (split_space ''Den dare_ GARDEN'') \<noteq> []"
    unfolding split_capitals by (simp add: possibilities_capitals)
  have base: "concat (baseWord (split_space ''Den dare_ GARDEN'') 0) = ''garden''"
    unfolding split_capitals
    by (simp add: baseWord_def possibilities_capitals concat_split_chars)
  from joiner_ledger_rederived[OF st ne, of "''lobby''" 0 id] obtain g' where
    g': "join_onmessage ''lobby'' ''Den dare_ GARDEN'' 0 id joiner_after_roster = Inr g'"
        "steady g'" "lobby g' = Some ''lobby''" "length (answers g') = 4"
        "concat (baseWord (split_space ''Den dare_ GARDEN'') 0)
           \<in> set (map toLowerCase (split_space ''Den dare_ GARDEN''))"
        "\<forall>L\<in>{3, 4, 5, 6}.
              sorted (group_words g' (L - 3)) \<and> distinct (group_words g' (L - 3)) \<and>
              (\<forall>w\<in>set (group_words g' (L - 3)). \<forall>c\<in>set w. \<not> upper_case c) \<and>
              set (group_words g' (L - 3))
                = {w \<in> set (map toLowerCase (split_space ''Den dare_ GARDEN'')).
                     length w = L \<and>
                     mset w \<subseteq># mset (concat (baseWord (split_space ''Den dare_ GARDEN'') 0))}"
    by blast
  from g'(1) have eq: "g' = joiner_joined_capitals"
    by (simp add: joiner_joined_capitals_answers(1))
  have "(3::nat) \<in> {3, 4, 5, 6}" by simp
  with g'(6) have "sorted (group_words g' (3 - 3)) \<and> distinct (group_words g' (3 - 3)) \<and>
              (\<forall>w\<in>set (group_words g' (3 - 3)). \<forall>c\<in>set w. \<not> upper_case c) \<and>
              set (group_words g' (3 - 3))
                = {w \<in> set (map toLowerCase (split_space ''Den dare_ GARDEN'')).
                     length w = 3 \<and>
                     mset w \<subseteq># mset (concat (baseWord (split_space ''Den dare_ GARDEN'') 0))}"
    by (rule bspec)
  then have three: "sorted (group_words joiner_joined_capitals 0)"
    "distinct (group_words joiner_joined_capitals 0)"
    "\<forall>w\<in>set (group_words joiner_joined_capitals 0). \<forall>c\<in>set w. \<not> upper_case c"
    "set (group_words joiner_joined_capitals 0)
       = {w \<in> set (map toLowerCase (split_space ''Den dare_ GARDEN'')).
            length w = 3 \<and> mset w \<subseteq># mset ''garden''}"
    unfolding eq base by simp_all
  have grp: "group_words joiner_joined_capitals 0 = [''den'']"
    by (simp add: group_words_def joiner_joined_capitals_answers(2))
  from three(3) have d: "\<not> upper_case CHR ''d''" unfolding grp by simp
  from g'(5) have low: "''garden'' \<in> set (map toLowerCase (split_space ''Den dare_ GARDEN''))"
    unfolding base .
  have notin: "''garden'' \<notin> set (split_space ''Den dare_ GARDEN'')"
    unfolding split_capitals by simp
  from st ne g'(2,3,4) base low notin grp three(1,2,4) d show ?thesis
    unfolding eq by (simp only: joiner_joined_capitals_answers(1) simp_thms)
qed

end
